theory Spec2Isabelle
  imports Main "HOL-Library.Word" "HOL-Library.Char_ord" "HOL-Library.List_Lexorder"
begin

unbundle bit_operations_syntax

section \<open>JavaScript values\<close>

text \<open>
  The values that travel as query parameters and results. A number is a safe integer (the
  fractional and non-finite doubles are outside this model); a string is a list of code
  units below 256; an array is dense; an object is the list of its own enumerable
  properties in creation order, with pairwise different keys (\<open>wf_jsval\<close>).
  Functions, symbols, dates and other objects with a \<open>toJSON\<close> method are not modelled.
\<close>

datatype jsval =
    JUndefined
  | JNull
  | JBool bool
  | JNum int
  | JStr string
  | JArr "jsval list"
  | JObj "(string \<times> jsval) list"

fun wf_jsval :: "jsval \<Rightarrow> bool" where
  "wf_jsval (JArr xs) = list_all wf_jsval xs"
| "wf_jsval (JObj ps) = (distinct (map fst ps) \<and> list_all (\<lambda>p. wf_jsval (snd p)) ps)"
| "wf_jsval _ = True"

subsection \<open>Numbers and strings as JSON text\<close>

definition digit_char :: "nat \<Rightarrow> char" where
  "digit_char d = char_of (48 + d)"

fun nat_to_string :: "nat \<Rightarrow> string" where
  "nat_to_string n =
     (if n < 10 then [digit_char n] else nat_to_string (n div 10) @ [digit_char (n mod 10)])"

declare nat_to_string.simps [simp del]

text \<open>
  \<open>Number::toString\<close> on a safe integer (at most \<open>2^53 - 1\<close> in absolute value): its
  plain decimal digits. A larger integer is no value of JavaScript's or is printed by
  JavaScript with its shortest digits that read back as the same double; the digits
  given here are those of the integer itself.
\<close>

definition Number_toString :: "int \<Rightarrow> string" where
  "Number_toString i = (if i < 0 then CHR ''-'' # nat_to_string (nat (- i)) else nat_to_string (nat i))"

definition hex_digit :: "nat \<Rightarrow> char" where
  "hex_digit d = (if d < 10 then char_of (48 + d) else char_of (87 + d))"

text \<open>
  \<open>QuoteJSONString\<close> of ECMAScript: the two-character escapes for backspace, tab, line
  feed, form feed, carriage return, the double quote and the backslash; \<open>\u00XX\<close> in
  lower-case hexadecimal for every other code unit below 0x20; any other code unit as it is.
\<close>

definition json_escape :: "char \<Rightarrow> string" where
  "json_escape c =
     (let n = (of_char c :: nat) in
      if n = 8 then [CHR 0x5C, CHR ''b'']
      else if n = 9 then [CHR 0x5C, CHR ''t'']
      else if n = 10 then [CHR 0x5C, CHR ''n'']
      else if n = 12 then [CHR 0x5C, CHR ''f'']
      else if n = 13 then [CHR 0x5C, CHR ''r'']
      else if n = 34 then [CHR 0x5C, CHR 0x22]
      else if n = 92 then [CHR 0x5C, CHR 0x5C]
      else if n < 32 then [CHR 0x5C, CHR ''u'', CHR ''0'', CHR ''0'', hex_digit (n div 16), hex_digit (n mod 16)]
      else [c])"

definition QuoteJSONString :: "string \<Rightarrow> string" where
  "QuoteJSONString s = CHR 0x22 # concat (map json_escape s) @ [CHR 0x22]"

subsection \<open>Objects: property order, reading and writing\<close>

definition string_to_nat :: "string \<Rightarrow> nat" where
  "string_to_nat s = foldl (\<lambda>a c. 10 * a + (of_char c - 48)) 0 s"

text \<open>
  An array index is a canonical numeric string (the decimal text of its own value) whose
  value is below \<open>2^32 - 1\<close>.
\<close>

definition is_array_index :: "string \<Rightarrow> bool" where
  "is_array_index s \<longleftrightarrow>
     s \<noteq> [] \<and> list_all (\<lambda>c. CHR ''0'' \<le> c \<and> c \<le> CHR ''9'') s \<and>
     nat_to_string (string_to_nat s) = s \<and> int (string_to_nat s) < 4294967295"

text \<open>
  \<open>OrdinaryOwnPropertyKeys\<close>: the array indices in ascending numeric order, then the other
  string keys in creation order. \<open>Object.keys\<close> and the property enumeration of
  \<open>JSON.stringify\<close> both list the keys in this order.
\<close>

definition OwnPropertyKeys :: "(string \<times> 'a) list \<Rightarrow> string list" where
  "OwnPropertyKeys ps =
     sort_key string_to_nat (filter is_array_index (map fst ps)) @
     filter (\<lambda>k. \<not> is_array_index k) (map fst ps)"

text \<open>\<open>value[key]\<close> on the own properties: an absent key reads as \<open>undefined\<close>.\<close>

definition js_get :: "(string \<times> jsval) list \<Rightarrow> string \<Rightarrow> jsval" where
  "js_get ps k = (case map_of ps k of Some v \<Rightarrow> v | None \<Rightarrow> JUndefined)"

text \<open>
  \<open>sortedObj[key] = v\<close> on an object created by the literal \<open>{}\<close>: the key \<open>__proto__\<close>
  reaches the accessor of \<open>Object.prototype\<close> and creates no own property; an existing key
  keeps its place; a new key is appended.
\<close>

definition js_set :: "(string \<times> jsval) list \<Rightarrow> string \<Rightarrow> jsval \<Rightarrow> (string \<times> jsval) list" where
  "js_set ps k v =
     (if k = ''__proto__'' then ps
      else if k \<in> set (map fst ps) then map (\<lambda>p. if fst p = k then (k, v) else p) ps
      else ps @ [(k, v)])"

text \<open>The own enumerable properties of an object or an array (index keys for an array).\<close>

fun own_properties :: "jsval \<Rightarrow> (string \<times> jsval) list" where
  "own_properties (JObj ps) = ps"
| "own_properties (JArr xs) = zip (map nat_to_string [0..<length xs]) xs"
| "own_properties _ = []"

fun is_object :: "jsval \<Rightarrow> bool" where
  "is_object (JObj ps) = True"
| "is_object (JArr xs) = True"
| "is_object _ = False"

section \<open>get-rpc-channel.ts\<close>

subsection \<open>stableStringify\<close>

text \<open>
  The replacer passed to \<open>JSON.stringify\<close>: a value with \<open>typeof value === 'object'\<close> that
  is not \<open>null\<close> (an object, and an array as well) is replaced by \<open>sortedObj\<close>, a fresh
  object that receives the value's keys in the order of \<open>Object.keys(value).sort()\<close> (the
  default sort compares strings by code units); any other value is returned as it is.
\<close>

definition sortedObj :: "(string \<times> jsval) list \<Rightarrow> (string \<times> jsval) list" where
  "sortedObj ps =
     foldl (\<lambda>obj key. js_set obj key (js_get ps key)) [] (sort (OwnPropertyKeys ps))"

definition replacer :: "jsval \<Rightarrow> jsval" where
  "replacer v = (if is_object v then JObj (sortedObj (own_properties v)) else v)"

fun join_comma :: "string list \<Rightarrow> string" where
  "join_comma [] = []"
| "join_comma [x] = x"
| "join_comma (x # y # ys) = x @ CHR '','' # join_comma (y # ys)"

lemma js_set_values: "snd ` set (js_set ps k v) \<subseteq> insert v (snd ` set ps)"
  by (auto simp: js_set_def)

lemma foldl_js_set_values:
  "snd ` set (foldl (\<lambda>acc key. js_set acc key (f key)) acc ks) \<subseteq> snd ` set acc \<union> f ` set ks"
proof (induction ks arbitrary: acc)
  case Nil
  then show ?case by simp
next
  case (Cons k ks)
  have "snd ` set (foldl (\<lambda>acc key. js_set acc key (f key)) (js_set acc k (f k)) ks)
          \<subseteq> snd ` set (js_set acc k (f k)) \<union> f ` set ks"
    by (rule Cons.IH)
  also have "\<dots> \<subseteq> snd ` set acc \<union> f ` set (k # ks)"
    using js_set_values [of acc k "f k"] by auto
  finally show ?case by simp
qed

lemma set_OwnPropertyKeys: "set (OwnPropertyKeys ps) = fst ` set ps"
  by (auto simp: OwnPropertyKeys_def)

lemma js_get_own_key: "k \<in> fst ` set ps \<Longrightarrow> js_get ps k \<in> snd ` set ps"
proof -
  assume "k \<in> fst ` set ps"
  then obtain v where "map_of ps k = Some v"
    by (metis domD dom_map_of_conv_image_fst)
  moreover from this have "(k, v) \<in> set ps"
    by (rule map_of_SomeD)
  ultimately show ?thesis
    by (force simp: js_get_def)
qed

lemma own_properties_size: "x \<in> snd ` set (own_properties v) \<Longrightarrow> size x < size v"
proof (cases v)
  case (JArr xs)
  assume "x \<in> snd ` set (own_properties v)"
  with JArr have "x \<in> set xs"
    by (auto dest: set_zip_rightD)
  then have "size x \<le> size_list size xs"
    by (simp add: size_list_estimation')
  with JArr show ?thesis by simp
next
  case (JObj ps)
  assume "x \<in> snd ` set (own_properties v)"
  with JObj obtain k where "(k, x) \<in> set ps" by auto
  then have "size_prod (\<lambda>_. 0) size (k, x) \<le> size_list (size_prod (\<lambda>_. 0) size) ps"
    by (rule size_list_estimation') simp
  with JObj show ?thesis by simp
qed auto

lemma replacer_child_size:
  assumes "replacer v = JObj ps" and "k \<in> set (OwnPropertyKeys ps)"
  shows "size (js_get ps k) < size v"
proof (cases "is_object v")
  case True
  let ?own = "own_properties v"
  from True assms(1) have ps: "ps = foldl (\<lambda>obj key. js_set obj key (js_get ?own key))
      [] (sort (OwnPropertyKeys ?own))"
    by (simp add: replacer_def sortedObj_def)
  from assms(2) have "js_get ps k \<in> snd ` set ps"
    by (simp add: set_OwnPropertyKeys js_get_own_key)
  with ps have "js_get ps k \<in> js_get ?own ` set (sort (OwnPropertyKeys ?own))"
    using foldl_js_set_values [of "js_get ?own" "[]" "sort (OwnPropertyKeys ?own)"] by auto
  then obtain a where "a \<in> fst ` set ?own" and "js_get ps k = js_get ?own a"
    by (auto simp: set_OwnPropertyKeys)
  then have "js_get ps k \<in> snd ` set ?own"
    by (simp add: js_get_own_key)
  then show ?thesis by (rule own_properties_size)
next
  case False
  with assms(1) have "v = JObj ps" by (simp add: replacer_def)
  with False show ?thesis by simp
qed

lemma replacer_not_array: "replacer v \<noteq> JArr xs"
  by (cases v) (simp_all add: replacer_def)

text \<open>
  \<open>SerializeJSONProperty\<close> of \<open>JSON.stringify(obj, replacer)\<close> with no indentation: the
  replacer is applied to the value first; \<open>undefined\<close> yields no text (\<open>None\<close>); an object
  lists its own properties in key order and leaves out those that yield no text; an array
  writes \<open>null\<close> for an element that yields no text.
\<close>

function SerializeJSONProperty :: "jsval \<Rightarrow> string option" where
  "SerializeJSONProperty v =
     (case replacer v of
        JUndefined \<Rightarrow> None
      | JNull \<Rightarrow> Some ''null''
      | JBool b \<Rightarrow> Some (if b then ''true'' else ''false'')
      | JNum n \<Rightarrow> Some (Number_toString n)
      | JStr s \<Rightarrow> Some (QuoteJSONString s)
      | JArr xs \<Rightarrow>
          Some (CHR ''['' # join_comma (map (\<lambda>x. case SerializeJSONProperty x of
                                                   None \<Rightarrow> ''null'' | Some s \<Rightarrow> s) xs) @ '']'')
      | JObj ps \<Rightarrow>
          Some (CHR ''{'' # join_comma (concat (map (\<lambda>k. case SerializeJSONProperty (js_get ps k) of
                                                   None \<Rightarrow> []
                                                 | Some s \<Rightarrow> [QuoteJSONString k @ CHR '':'' # s])
                                             (OwnPropertyKeys ps))) @ ''}''))"
  by pat_completeness auto
termination
proof (relation "measure size")
  show "wf (measure size)" by simp
next
  fix v xs x
  assume "replacer v = JArr xs"
  then show "(x, v) \<in> measure size" by (simp add: replacer_not_array)
next
  fix v ps k
  assume "replacer v = JObj ps" and "k \<in> set (OwnPropertyKeys ps)"
  then show "(js_get ps k, v) \<in> measure size"
    by (simp add: replacer_child_size)
qed

declare SerializeJSONProperty.simps [simp del]

definition JSON_stringify :: "jsval \<Rightarrow> string option" where
  "JSON_stringify v = SerializeJSONProperty v"

text \<open>
  \<open>JSON.stringify\<close> gives \<open>undefined\<close> only for a value that yields no text; after the
  first test of \<open>stableStringify\<close> that cannot happen in this model, and the branch
  \<open>None\<close> stands for it.
\<close>

definition stableStringify :: "jsval \<Rightarrow> string" where
  "stableStringify obj =
     (if obj = JUndefined \<or> obj = JNull then ''{}''
      else (case JSON_stringify obj of Some s \<Rightarrow> s | None \<Rightarrow> ''undefined''))"

subsection \<open>The digest\<close>

text \<open>
  \<open>sha256(message).toString()\<close> of crypto-js, which the repository imports: the string is
  encoded as UTF-8, hashed with SHA-256 (FIPS 180-4) and printed as 64 lower-case
  hexadecimal digits.
\<close>

type_synonym word32 = "32 word"

definition utf8_encode :: "string \<Rightarrow> nat list" where
  "utf8_encode s =
     concat (map (\<lambda>c. let n = (of_char c :: nat) in
                        if n < 128 then [n] else [192 + n div 64, 128 + n mod 64]) s)"

definition sha256_pad :: "nat list \<Rightarrow> nat list" where
  "sha256_pad msg =
     (let l = length msg in
      msg @ [128] @ replicate ((119 - l mod 64) mod 64) 0 @
      map (\<lambda>i. unat (drop_bit (8 * i) (of_nat (8 * l) :: 64 word) AND 255)) [7, 6, 5, 4, 3, 2, 1, 0])"

fun bytes_to_words :: "nat list \<Rightarrow> word32 list" where
  "bytes_to_words (a # b # c # d # bs) =
     (push_bit 24 (of_nat a) OR push_bit 16 (of_nat b) OR push_bit 8 (of_nat c) OR of_nat d)
       # bytes_to_words bs"
| "bytes_to_words _ = []"

definition sha256_K :: "word32 list" where
  "sha256_K =
    [0x428A2F98, 0x71374491, 0xB5C0FBCF, 0xE9B5DBA5, 0x3956C25B, 0x59F111F1, 0x923F82A4, 0xAB1C5ED5,
     0xD807AA98, 0x12835B01, 0x243185BE, 0x550C7DC3, 0x72BE5D74, 0x80DEB1FE, 0x9BDC06A7, 0xC19BF174,
     0xE49B69C1, 0xEFBE4786, 0x0FC19DC6, 0x240CA1CC, 0x2DE92C6F, 0x4A7484AA, 0x5CB0A9DC, 0x76F988DA,
     0x983E5152, 0xA831C66D, 0xB00327C8, 0xBF597FC7, 0xC6E00BF3, 0xD5A79147, 0x06CA6351, 0x14292967,
     0x27B70A85, 0x2E1B2138, 0x4D2C6DFC, 0x53380D13, 0x650A7354, 0x766A0ABB, 0x81C2C92E, 0x92722C85,
     0xA2BFE8A1, 0xA81A664B, 0xC24B8B70, 0xC76C51A3, 0xD192E819, 0xD6990624, 0xF40E3585, 0x106AA070,
     0x19A4C116, 0x1E376C08, 0x2748774C, 0x34B0BCB5, 0x391C0CB3, 0x4ED8AA4A, 0x5B9CCA4F, 0x682E6FF3,
     0x748F82EE, 0x78A5636F, 0x84C87814, 0x8CC70208, 0x90BEFFFA, 0xA4506CEB, 0xBEF9A3F7, 0xC67178F2]"

definition sha256_H0 :: "word32 list" where
  "sha256_H0 =
    [0x6A09E667, 0xBB67AE85, 0x3C6EF372, 0xA54FF53A, 0x510E527F, 0x9B05688C, 0x1F83D9AB, 0x5BE0CD19]"

definition small_sigma0 :: "word32 \<Rightarrow> word32" where
  "small_sigma0 x = word_rotr 7 x XOR word_rotr 18 x XOR drop_bit 3 x"

definition small_sigma1 :: "word32 \<Rightarrow> word32" where
  "small_sigma1 x = word_rotr 17 x XOR word_rotr 19 x XOR drop_bit 10 x"

definition big_sigma0 :: "word32 \<Rightarrow> word32" where
  "big_sigma0 x = word_rotr 2 x XOR word_rotr 13 x XOR word_rotr 22 x"

definition big_sigma1 :: "word32 \<Rightarrow> word32" where
  "big_sigma1 x = word_rotr 6 x XOR word_rotr 11 x XOR word_rotr 25 x"

text \<open>The message schedule: each further word from the words 2, 7, 15 and 16 places back.\<close>

fun sha256_schedule :: "nat \<Rightarrow> word32 list \<Rightarrow> word32 list" where
  "sha256_schedule 0 w = w"
| "sha256_schedule (Suc n) w =
     (let t = length w in
      sha256_schedule n
        (w @ [small_sigma1 (w ! (t - 2)) + w ! (t - 7) + small_sigma0 (w ! (t - 15)) + w ! (t - 16)]))"

fun sha256_round :: "word32 list \<Rightarrow> word32 \<times> word32 \<Rightarrow> word32 list" where
  "sha256_round [a, b, c, d, e, f, g, h] (k, w) =
     (let t1 = h + big_sigma1 e + ((e AND f) XOR (NOT e AND g)) + k + w;
          t2 = big_sigma0 a + ((a AND b) XOR (a AND c) XOR (b AND c))
      in [t1 + t2, a, b, c, d + t1, e, f, g])"
| "sha256_round st _ = st"

definition sha256_block :: "word32 list \<Rightarrow> word32 list \<Rightarrow> word32 list" where
  "sha256_block hs blk = map2 (+) hs (foldl sha256_round hs (zip sha256_K (sha256_schedule 48 blk)))"

fun sha256_blocks :: "nat \<Rightarrow> word32 list \<Rightarrow> word32 list \<Rightarrow> word32 list" where
  "sha256_blocks 0 hs ws = hs"
| "sha256_blocks (Suc n) hs ws = sha256_blocks n (sha256_block hs (take 16 ws)) (drop 16 ws)"

definition hex_word32 :: "word32 \<Rightarrow> string" where
  "hex_word32 x = map (\<lambda>i. hex_digit (unat (drop_bit (4 * i) x AND 15))) [7, 6, 5, 4, 3, 2, 1, 0]"

definition sha256 :: "string \<Rightarrow> string" where
  "sha256 message =
     (let ws = bytes_to_words (sha256_pad (utf8_encode message))
      in concat (map hex_word32 (sha256_blocks (length ws div 16) sha256_H0 ws)))"

subsection \<open>getRpcChannelName\<close>

text \<open>\<open>params ?? {}\<close>: \<open>undefined\<close> and \<open>null\<close> become the empty object.\<close>

definition nullish_default :: "jsval \<Rightarrow> jsval" where
  "nullish_default params = (if params = JUndefined \<or> params = JNull then JObj [] else params)"

definition getRpcChannelName :: "string \<Rightarrow> jsval \<Rightarrow> string" where
  "getRpcChannelName query params =
     (let paramsHash = sha256 (stableStringify (nullish_default params))
      in ''query_'' @ query @ ''_'' @ paramsHash)"

section \<open>try-catch.ts and the model of asynchronous calls\<close>

text \<open>
  A value thrown or rejected is an \<open>Error\<close> object (as \<open>tryCatch\<close>'s type \<open>E = Error\<close>
  declares, so that the test \<open>if (error)\<close> holds exactly for a failure): the
  \<open>HTTPException\<close> of Hono with its status and message, or any other error.
\<close>

datatype error = HTTPException nat string | Error string

datatype broadcast_item = BroadcastItem (item_channel: string) (item_name: string) (item_data: jsval)

text \<open>
  What the library does to the outside world is recorded as a list of events: each call of
  a callback supplied by the user (authorization predicate, query or mutation handler,
  function of the invalidation map) and each call of the transport.
\<close>

datatype event =
    AuthorizationCalled string jsval
  | QueryCalled string jsval
  | MutationCalled string jsval
  | InvalidateParamsCalled string jsval jsval
  | Broadcast string string jsval
  | BatchBroadcast "broadcast_item list"

text \<open>
  A promise is modelled by its outcome (\<open>Inl\<close> a rejection, \<open>Inr\<close> the value) together with
  the events performed until it settles. A user callback is an async function: its
  outcome is a function of its arguments, and it fails by rejecting, not by throwing
  before it returns its promise. Tasks that run concurrently are recorded one after the
  other, in the order in which the source starts them; a task that is not awaited is
  recorded as well, up to its end.
\<close>

type_synonym 'a promise = "(error + 'a) \<times> event list"

definition resolve :: "'a \<Rightarrow> 'a promise" where
  "resolve x = (Inr x, [])"

definition reject :: "error \<Rightarrow> 'a promise" where
  "reject e = (Inl e, [])"

text \<open>\<open>const x = await p; ...\<close>: a rejection of \<open>p\<close> leaves the rest undone.\<close>

definition await :: "'a promise \<Rightarrow> ('a \<Rightarrow> 'b promise) \<Rightarrow> 'b promise" where
  "await p k =
     (case p of
        (Inl e, t) \<Rightarrow> (Inl e, t)
      | (Inr x, t) \<Rightarrow> (case k x of (r, t') \<Rightarrow> (r, t @ t')))"

text \<open>Calling a user callback or the transport: one event, and the callback's outcome.\<close>

definition call :: "event \<Rightarrow> error + 'a \<Rightarrow> 'a promise" where
  "call ev outcome = (outcome, [ev])"

text \<open>
  \<open>tryCatch\<close> never rejects: it resolves to \<open>[data, null]\<close> (here \<open>Inr data\<close>) or to
  \<open>[null, error]\<close> (here \<open>Inl error\<close>).
\<close>

definition tryCatch :: "'a promise \<Rightarrow> (error + 'a) promise" where
  "tryCatch p = (case p of (r, t) \<Rightarrow> (Inr r, t))"

text \<open>
  \<open>Promise.all\<close>: every task runs; the result is the list of values, or a rejection when
  a task rejects.
\<close>

fun Promise_all :: "'a promise list \<Rightarrow> 'a list promise" where
  "Promise_all [] = (Inr [], [])"
| "Promise_all (p # ps) =
     (case p of (r, t) \<Rightarrow>
        (case Promise_all ps of (rs, ts) \<Rightarrow>
           ((case r of
               Inl e \<Rightarrow> Inl e
             | Inr x \<Rightarrow> (case rs of Inl e \<Rightarrow> Inl e | Inr xs \<Rightarrow> Inr (x # xs))),
            t @ ts)))"

text \<open>A promise that is started and not awaited: its events happen, its outcome is dropped.\<close>

definition not_awaited :: "'a promise \<Rightarrow> unit promise" where
  "not_awaited p = (Inr (), snd p)"

section \<open>live-rpc-builder-class.ts: the definitions\<close>

text \<open>
  The request is Hono's context: the path of the URL and the JSON body, a well-formed
  envelope \<open>{key, params}\<close>.
\<close>

record request =
  pathname :: string
  body_key :: string
  body_params :: jsval

text \<open>
  The schema is an opaque validator: \<open>safeParse\<close> answers \<open>{success: true, data}\<close> or
  \<open>{success: false, error}\<close>, the error with or without a message; a validator that
  answers \<open>{success: false}\<close> with no error object at all is \<open>ParseFailureWithoutError\<close>.
\<close>

datatype safe_parse_result =
    ParseSuccess jsval
  | ParseError "string option"
  | ParseFailureWithoutError

record query_def =
  q_safeParse :: "jsval \<Rightarrow> safe_parse_result"
  q_query :: "jsval \<Rightarrow> request \<Rightarrow> error + jsval"
  q_authorization :: "(jsval \<Rightarrow> request \<Rightarrow> error + bool) option"

record mutation_def =
  m_safeParse :: "jsval \<Rightarrow> safe_parse_result"
  m_mutation :: "jsval \<Rightarrow> request \<Rightarrow> error + jsval"
  m_authorization :: "(jsval \<Rightarrow> request \<Rightarrow> error + bool) option"
  m_invalidateQueries :: "(string \<times> (jsval \<Rightarrow> jsval \<Rightarrow> error + jsval) option) list option"

text \<open>
  The registry: the definitions by name, in the order of \<open>Object.entries\<close>. No definition
  is registered under the name \<open>__proto__\<close>.
\<close>

record rpc_config =
  queries :: "(string \<times> query_def) list"
  mutations :: "(string \<times> mutation_def) list"

section \<open>The class LiveRPC\<close>

subsection \<open>Reading a name from a plain object\<close>

text \<open>
  \<open>this.queries\<close>, \<open>this.mutations\<close> and the two objects of the configuration are plain
  objects, so \<open>obj[key]\<close> finds the registered entry, or else a property inherited from
  \<open>Object.prototype\<close>, or else \<open>undefined\<close>.
\<close>

definition Object_prototype_names :: "string list" where
  "Object_prototype_names =
     [''constructor'', ''__defineGetter__'', ''__defineSetter__'', ''hasOwnProperty'',
      ''__lookupGetter__'', ''__lookupSetter__'', ''isPrototypeOf'', ''propertyIsEnumerable'',
      ''toString'', ''valueOf'', ''__proto__'', ''toLocaleString'']"

datatype 'd property = Registered 'd | Inherited | Absent

definition lookup_property :: "(string \<times> 'd) list \<Rightarrow> string \<Rightarrow> 'd property" where
  "lookup_property entries key =
     (case map_of entries key of
        Some d \<Rightarrow> Registered d
      | None \<Rightarrow> if key \<in> set Object_prototype_names then Inherited else Absent)"

text \<open>
  The call \<open>f(params, c)\<close> of an inherited property \<open>f\<close> in strict code, where \<open>this\<close> is
  \<open>undefined\<close>: \<open>Object(params)\<close> returns an object as it is and \<open>{}\<close> for \<open>undefined\<close>
  and \<open>null\<close> (a primitive is wrapped, and \<open>c.json\<close> writes the wrapper as the
  primitive); \<open>toString\<close> returns \<open>[object Undefined]\<close>; \<open>isPrototypeOf\<close> returns
  \<open>false\<close> for an argument that is no object; every other call raises a \<open>TypeError\<close>
  (the function needs an object as \<open>this\<close>, and the value of \<open>__proto__\<close> is no
  function).
\<close>

definition Object_prototype_call :: "string \<Rightarrow> jsval \<Rightarrow> error + jsval" where
  "Object_prototype_call key params =
     (if key = ''constructor''
      then Inr (if params = JUndefined \<or> params = JNull then JObj [] else params)
      else if key = ''toString'' then Inr (JStr ''[object Undefined]'')
      else if key = ''isPrototypeOf'' \<and> \<not> is_object params then Inr (JBool False)
      else Inl (Error ''TypeError''))"

subsection \<open>Construction and validation\<close>

record socket_options =
  broadcast :: "string \<Rightarrow> string \<Rightarrow> jsval \<Rightarrow> error + unit"
  batchBroadcast :: "broadcast_item list \<Rightarrow> error + unit"
  maxBatchSize :: "nat option"

record live_rpc =
  socket :: socket_options
  config :: rpc_config

text \<open>The constructor: \<open>maxBatchSize\<close> becomes 10 when it is absent or 0.\<close>

definition LiveRPC :: "socket_options \<Rightarrow> rpc_config \<Rightarrow> live_rpc" where
  "LiveRPC sock builtConfig =
     \<lparr> socket = (if maxBatchSize sock = None \<or> maxBatchSize sock = Some 0
                 then sock \<lparr> maxBatchSize := Some 10 \<rparr> else sock),
       config = builtConfig \<rparr>"

datatype def_type = query_type | mutation_type

definition type_name :: "def_type \<Rightarrow> string" where
  "type_name t = (case t of query_type \<Rightarrow> ''query'' | mutation_type \<Rightarrow> ''mutation'')"

text \<open>
  For a name that is only inherited, \<open>def\<close> is a property of \<open>Object.prototype\<close>,
  \<open>def.params\<close> is \<open>undefined\<close> and reading \<open>safeParse\<close> from it raises a \<open>TypeError\<close>;
  so does reading \<open>error.message\<close> when a failure comes with no error object.
\<close>

definition validateParams :: "live_rpc \<Rightarrow> def_type \<Rightarrow> string \<Rightarrow> jsval \<Rightarrow> error + jsval" where
  "validateParams rpc t key params =
     (case (case t of
              query_type \<Rightarrow> map_property q_safeParse (lookup_property (queries (config rpc)) key)
            | mutation_type \<Rightarrow> map_property m_safeParse (lookup_property (mutations (config rpc)) key)) of
        Absent \<Rightarrow> Inl (HTTPException 400 (''Unknown '' @ type_name t @ '': '' @ key))
      | Inherited \<Rightarrow> Inl (Error ''TypeError'')
      | Registered safeParse \<Rightarrow>
          (case safeParse params of
             ParseError msg \<Rightarrow>
               Inl (HTTPException 400 (case msg of Some m \<Rightarrow> m | None \<Rightarrow> ''Invalid params''))
           | ParseFailureWithoutError \<Rightarrow> Inl (Error ''TypeError'')
           | ParseSuccess d \<Rightarrow> Inr d))"

text \<open>
  \<open>validateParams\<close> is synchronous and is called while the argument of \<open>tryCatch\<close> is
  evaluated, so its exception leaves the enclosing async function as it is.
\<close>

definition validated :: "error + jsval \<Rightarrow> jsval promise" where
  "validated r = (r, [])"

subsection \<open>The functions of a query\<close>

definition query_fn :: "live_rpc \<Rightarrow> string \<Rightarrow> query_def \<Rightarrow> jsval \<Rightarrow> request \<Rightarrow> bool \<Rightarrow> jsval promise" where
  "query_fn rpc name def params req withAuth =
     await (validated (validateParams rpc query_type name params)) (\<lambda>parsed.
     await (case (if withAuth then q_authorization def else None) of
              None \<Rightarrow> resolve ()
            | Some authorization \<Rightarrow>
                await (tryCatch (call (AuthorizationCalled name parsed) (authorization parsed req)))
                  (\<lambda>r. case r of
                          Inl err \<Rightarrow> reject (HTTPException 401 ''Unauthorized'')
                        | Inr result \<Rightarrow> resolve ())) (\<lambda>_.
     await (tryCatch (call (QueryCalled name parsed) (q_query def parsed req)))
       (\<lambda>r. case r of Inl err \<Rightarrow> reject err | Inr result \<Rightarrow> resolve result)))"

definition invalidate :: "live_rpc \<Rightarrow> string \<Rightarrow> query_def \<Rightarrow> jsval \<Rightarrow> request \<Rightarrow> jsval promise" where
  "invalidate rpc name def params req =
     await (validated (validateParams rpc query_type name params)) (\<lambda>parsed.
     await (tryCatch (call (QueryCalled name parsed) (q_query def parsed req)))
       (\<lambda>r. case r of
               Inl err \<Rightarrow> reject err
             | Inr result \<Rightarrow>
                 (let channel = getRpcChannelName name parsed in
                  await (tryCatch (call (Broadcast channel ''update'' result)
                                        (broadcast (socket rpc) channel ''update'' result)))
                    (\<lambda>b. case b of
                            Inl errorBroadcast \<Rightarrow> reject (HTTPException 500 ''Failed to broadcast update'')
                          | Inr _ \<Rightarrow> resolve result))))"

text \<open>The result \<open>{result, channel}\<close> is the pair \<open>(result, channel)\<close>.\<close>

definition batchInvalidate :: "live_rpc \<Rightarrow> string \<Rightarrow> query_def \<Rightarrow> jsval \<Rightarrow> request \<Rightarrow> (jsval \<times> string) promise" where
  "batchInvalidate rpc name def params req =
     await (validated (validateParams rpc query_type name params)) (\<lambda>parsed.
     await (tryCatch (call (QueryCalled name parsed) (q_query def parsed req)))
       (\<lambda>r. case r of
               Inl err \<Rightarrow> reject err
             | Inr result \<Rightarrow>
                 (let channel = getRpcChannelName name parsed in
                  await (tryCatch (call (Broadcast channel ''update'' result)
                                        (broadcast (socket rpc) channel ''update'' result)))
                    (\<lambda>b. case b of
                            Inl errorBroadcast \<Rightarrow> reject (HTTPException 500 ''Failed to broadcast update'')
                          | Inr _ \<Rightarrow> resolve (result, channel)))))"

subsection \<open>The function of a mutation and the invalidation of its target queries\<close>

text \<open>
  The entry of \<open>broadcasts\<close> for one element of an array of target parameters:
  \<open>{success: false, channel: null, result: null}\<close> or \<open>{success: true, channel, result}\<close>.
  \<open>this.queries[queryName]\<close> is \<open>undefined\<close> for a name that is no query, and reading
  \<open>batchInvalidate\<close> from it raises a \<open>TypeError\<close> outside \<open>tryCatch\<close>.
\<close>

datatype batch_outcome = BatchFailure | BatchSuccess string jsval

definition batch_element :: "live_rpc \<Rightarrow> string \<Rightarrow> request \<Rightarrow> jsval \<Rightarrow> batch_outcome promise" where
  "batch_element rpc queryName req queryParam =
     (case map_of (queries (config rpc)) queryName of
        None \<Rightarrow> reject (Error ''TypeError'')
      | Some qdef \<Rightarrow>
          await (tryCatch (batchInvalidate rpc queryName qdef queryParam req))
            (\<lambda>r. case r of
                    Inl err \<Rightarrow> resolve BatchFailure
                  | Inr d \<Rightarrow> resolve (BatchSuccess (snd d) (fst d))))"

text \<open>
  \<open>broadcasts.filter(success && channel !== null)\<close>, each kept element as the item
  \<open>{channel, name: "update", data: result}\<close> that the \<open>reduce\<close> pushes for it.
\<close>

definition successful_items :: "batch_outcome list \<Rightarrow> broadcast_item list" where
  "successful_items broadcasts =
     concat (map (\<lambda>b. case b of
                         BatchFailure \<Rightarrow> []
                       | BatchSuccess channel result \<Rightarrow> [BroadcastItem channel ''update'' result])
                 broadcasts)"

text \<open>
  The \<open>reduce\<close> that builds \<open>toBroadcast\<close>: an empty accumulator first receives an empty
  batch, and the item is pushed onto the last batch. \<open>maxBatchSize\<close> is not read.
\<close>

definition toBroadcast :: "batch_outcome list \<Rightarrow> broadcast_item list list" where
  "toBroadcast broadcasts =
     foldl (\<lambda>acc item.
              (let acc1 = (if length acc = 0 then acc @ [[]] else acc)
               in acc1 [length acc1 - 1 := acc1 ! (length acc1 - 1) @ [item]]))
           [] (successful_items broadcasts)"

definition is_success :: "batch_outcome \<Rightarrow> bool" where
  "is_success b = (case b of BatchFailure \<Rightarrow> False | BatchSuccess channel result \<Rightarrow> True)"

definition invalidate_target ::
  "live_rpc \<Rightarrow> jsval \<Rightarrow> jsval \<Rightarrow> request \<Rightarrow> string \<times> (jsval \<Rightarrow> jsval \<Rightarrow> error + jsval) option \<Rightarrow> unit promise" where
  "invalidate_target rpc parsed result req entry =
     (case entry of
        (queryName, None) \<Rightarrow> resolve ()
      | (queryName, Some invalidateParamsFn) \<Rightarrow>
          await (tryCatch (call (InvalidateParamsCalled queryName parsed result)
                                (invalidateParamsFn parsed result)))
            (\<lambda>r. case r of
                    Inl queryParamsError \<Rightarrow> reject (HTTPException 500 ''Failed to invalidate query'')
                  | Inr queryParams \<Rightarrow>
                      (case queryParams of
                         JArr elems \<Rightarrow>
                           await (Promise_all (map (batch_element rpc queryName req) elems)) (\<lambda>broadcasts.
                           await (Promise_all (map (\<lambda>broadcastBatch.
                                     await (tryCatch (call (BatchBroadcast broadcastBatch)
                                                           (batchBroadcast (socket rpc) broadcastBatch)))
                                       (\<lambda>b. resolve (case b of Inl err \<Rightarrow> False | Inr _ \<Rightarrow> True)))
                                   (toBroadcast broadcasts))) (\<lambda>sent.
                             if \<not> list_all is_success broadcasts
                             then reject (HTTPException 500 ''Failed to invalidate some queries'')
                             else if \<not> list_all id sent
                             then reject (HTTPException 500 ''Failed to broadcast some updates'')
                             else resolve ()))
                       | _ \<Rightarrow>
                           (case map_of (queries (config rpc)) queryName of
                              None \<Rightarrow> reject (Error ''TypeError'')
                            | Some qdef \<Rightarrow>
                                await (tryCatch (invalidate rpc queryName qdef queryParams req))
                                  (\<lambda>d. case d of Inl err \<Rightarrow> reject err | Inr _ \<Rightarrow> resolve ())))))"

definition fan_out :: "live_rpc \<Rightarrow> mutation_def \<Rightarrow> jsval \<Rightarrow> jsval \<Rightarrow> request \<Rightarrow> unit list promise" where
  "fan_out rpc def parsed result req =
     Promise_all (case m_invalidateQueries def of
                    None \<Rightarrow> []
                  | Some entries \<Rightarrow> map (invalidate_target rpc parsed result req) entries)"

definition mutation_fn :: "live_rpc \<Rightarrow> string \<Rightarrow> mutation_def \<Rightarrow> jsval \<Rightarrow> request \<Rightarrow> bool \<Rightarrow> jsval promise" where
  "mutation_fn rpc name def params req withAuth =
     await (validated (validateParams rpc mutation_type name params)) (\<lambda>parsed.
     await (case (if withAuth then m_authorization def else None) of
              None \<Rightarrow> resolve ()
            | Some authorization \<Rightarrow>
                await (tryCatch (call (AuthorizationCalled name parsed) (authorization parsed req)))
                  (\<lambda>r. case r of
                          Inl err \<Rightarrow> reject (HTTPException 401 ''Unauthorized'')
                        | Inr result \<Rightarrow> resolve ())) (\<lambda>_.
     await (tryCatch (call (MutationCalled name parsed) (m_mutation def parsed req)))
       (\<lambda>r. case r of
               Inl err \<Rightarrow> reject err
             | Inr result \<Rightarrow>
                 await (not_awaited (fan_out rpc def parsed result req)) (\<lambda>_. resolve result))))"

subsection \<open>handleRequest\<close>

definition endsWith :: "string \<Rightarrow> string \<Rightarrow> bool" where
  "endsWith s searchString \<longleftrightarrow>
     length searchString \<le> length s \<and> drop (length s - length searchString) s = searchString"

text \<open>\<open>c.json(body, status)\<close>; the status is 200 when none is given.\<close>

datatype response = JsonResponse jsval nat

text \<open>
  The result is a response, or \<open>undefined\<close> (\<open>None\<close>) where the function returns without
  a value. \<open>this.queries[key]\<close> is the function of a registered query or an inherited
  property; an exception of the latter's call leaves \<open>handleRequest\<close> as the rethrown
  error of a rejected call would.
\<close>

definition handleRequest :: "live_rpc \<Rightarrow> request \<Rightarrow> response option promise" where
  "handleRequest rpc c =
     (let isQuery = endsWith (pathname c) ''/rpc/query'';
          isMutation = endsWith (pathname c) ''/rpc/mutation'';
          key = body_key c;
          params = body_params c
      in if \<not> isQuery \<and> \<not> isMutation then resolve None
         else if isQuery then
           (case lookup_property (queries (config rpc)) key of
              Absent \<Rightarrow> reject (HTTPException 400 (''Unknown query type: '' @ key))
            | found \<Rightarrow>
                await (tryCatch (case found of
                                   Registered qdef \<Rightarrow> query_fn rpc key qdef params c True
                                 | _ \<Rightarrow> (Object_prototype_call key params, [])))
                  (\<lambda>r. case r of
                          Inl err \<Rightarrow> reject err
                        | Inr result \<Rightarrow>
                            (let channel = getRpcChannelName key params
                             in resolve (Some (JsonResponse
                                  (JObj [(''data'', result), (''channel'', JStr channel), (''error'', JNull)])
                                  200)))))
         else if isMutation then
           (case lookup_property (mutations (config rpc)) key of
              Absent \<Rightarrow> reject (HTTPException 400 (''Unknown mutation: '' @ key))
            | found \<Rightarrow>
                await (tryCatch (case found of
                                   Registered mdef \<Rightarrow> mutation_fn rpc key mdef params c True
                                 | _ \<Rightarrow> (Object_prototype_call key params, [])))
                  (\<lambda>r. case r of
                          Inl err \<Rightarrow> reject err
                        | Inr result \<Rightarrow>
                            resolve (Some (JsonResponse
                              (JObj [(''success'', JBool True),
                                     (''data'', if result = JNull \<or> result = JUndefined then JUndefined else result),
                                     (''error'', JNull)])
                              200))))
         else resolve (Some (JsonResponse (JObj [(''error'', JStr ''Request not valid'')]) 400)))"

section \<open>An example configuration\<close>

text \<open>
  A transport that accepts every call and one that fails every call; the queries and
  mutations of a small application; requests. They serve as concrete inputs below.
\<close>

definition demo_socket :: socket_options where
  "demo_socket = \<lparr> broadcast = (\<lambda>channel ev d. Inr ()), batchBroadcast = (\<lambda>items. Inr ()), maxBatchSize = Some 10 \<rparr>"

definition failing_socket :: socket_options where
  "failing_socket =
     \<lparr> broadcast = (\<lambda>channel ev d. Inl (Error ''socket closed'')),
       batchBroadcast = (\<lambda>items. Inl (Error ''socket closed'')),
       maxBatchSize = None \<rparr>"

definition getPost :: query_def where
  "getPost =
     \<lparr> q_safeParse = (\<lambda>raw. case raw of
                              JObj [(''id'', JNum i)] \<Rightarrow> ParseSuccess raw
                            | _ \<Rightarrow> ParseError (Some ''Required'')),
       q_query = (\<lambda>params req. Inr (JObj [(''post'', params)])),
       q_authorization = None \<rparr>"

definition getSecret :: query_def where
  "getSecret =
     \<lparr> q_safeParse = ParseSuccess,
       q_query = (\<lambda>params req. Inr (JStr ''secret'')),
       q_authorization = Some (\<lambda>params req. Inr False) \<rparr>"

definition getPosts :: query_def where
  "getPosts =
     \<lparr> q_safeParse = (\<lambda>raw. if raw = JUndefined \<or> raw = JNull then ParseSuccess JUndefined
                            else ParseError (Some ''Expected undefined'')),
       q_query = (\<lambda>params req. Inr (JArr [])),
       q_authorization = None \<rparr>"

text \<open>A schema that keeps the key \<open>id\<close> and strips every other key of its input.\<close>

definition getUser :: query_def where
  "getUser =
     \<lparr> q_safeParse = (\<lambda>raw. case map_of (own_properties raw) ''id'' of
                              Some (JNum i) \<Rightarrow> ParseSuccess (JObj [(''id'', JNum i)])
                            | _ \<Rightarrow> ParseError (Some ''Required'')),
       q_query = (\<lambda>params req. Inr (JObj [(''user'', params)])),
       q_authorization = None \<rparr>"

definition post_ids :: "jsval list" where
  "post_ids = map (\<lambda>i. JNum (int i)) [0..<25]"

definition deleteAllPosts :: mutation_def where
  "deleteAllPosts =
     \<lparr> m_safeParse = ParseSuccess,
       m_mutation = (\<lambda>params req. Inr (JArr post_ids)),
       m_authorization = None,
       m_invalidateQueries =
         Some [(''getPost'', Some (\<lambda>mutationParams mutationResults.
                  case mutationResults of
                    JArr ids \<Rightarrow> Inr (JArr (map (\<lambda>i. JObj [(''id'', i)]) ids))
                  | _ \<Rightarrow> Inr JUndefined))] \<rparr>"

definition wipeSecrets :: mutation_def where
  "wipeSecrets =
     \<lparr> m_safeParse = (\<lambda>raw. case raw of JObj [] \<Rightarrow> ParseSuccess raw | _ \<Rightarrow> ParseError None),
       m_mutation = (\<lambda>params req. Inr (JStr ''wiped'')),
       m_authorization = Some (\<lambda>params req. Inr False),
       m_invalidateQueries =
         Some [(''getPosts'', Some (\<lambda>mutationParams mutationResults. Inl (Error ''no database''))),
               (''getPost'', Some (\<lambda>mutationParams mutationResults. Inr (JObj [(''id'', JNum 1)])))] \<rparr>"

definition createPost :: mutation_def where
  "createPost =
     \<lparr> m_safeParse = (\<lambda>raw. case raw of
                              JObj [(''title'', JStr t)] \<Rightarrow> ParseSuccess raw
                            | _ \<Rightarrow> ParseError (Some ''Required'')),
       m_mutation = (\<lambda>params req. Inr (JObj [(''id'', JNum 1)])),
       m_authorization = Some (\<lambda>params req. Inr True),
       m_invalidateQueries =
         Some [(''getPosts'', Some (\<lambda>mutationParams mutationResults. Inr JUndefined)),
               (''getPost'', Some (\<lambda>mutationParams mutationResults. Inr mutationResults))] \<rparr>"

definition demo_config :: rpc_config where
  "demo_config =
     \<lparr> queries = [(''getPosts'', getPosts), (''getPost'', getPost), (''getSecret'', getSecret),
                  (''getUser'', getUser)],
       mutations = [(''deleteAllPosts'', deleteAllPosts), (''wipeSecrets'', wipeSecrets),
                    (''createPost'', createPost)] \<rparr>"

definition demo_rpc :: live_rpc where
  "demo_rpc = LiveRPC demo_socket demo_config"

definition offline_rpc :: live_rpc where
  "offline_rpc = LiveRPC failing_socket demo_config"

definition demo_request :: "string \<Rightarrow> string \<Rightarrow> jsval \<Rightarrow> request" where
  "demo_request path key params = \<lparr> pathname = path, body_key = key, body_params = params \<rparr>"

text \<open>The sizes of the batches given to \<open>batchBroadcast\<close>, call by call.\<close>

fun batch_sizes :: "event list \<Rightarrow> nat list" where
  "batch_sizes [] = []"
| "batch_sizes (BatchBroadcast items # evs) = length items # batch_sizes evs"
| "batch_sizes (ev # evs) = batch_sizes evs"

text \<open>The authorization predicate, when there is one, returns a value (it does not raise).\<close>

definition does_not_raise :: "(jsval \<Rightarrow> request \<Rightarrow> error + bool) option \<Rightarrow> jsval \<Rightarrow> request \<Rightarrow> bool" where
  "does_not_raise auth parsed req =
     (case auth of
        None \<Rightarrow> True
      | Some authorization \<Rightarrow> (case authorization parsed req of Inl err \<Rightarrow> False | Inr allowed \<Rightarrow> True))"


section \<open>Canonical form: auxiliary notions\<close>

text \<open>The member list that \<open>SerializeJSONObject\<close> joins with commas.\<close>

definition json_members :: "(string \<times> jsval) list \<Rightarrow> string list" where
  "json_members ps =
     concat (map (\<lambda>k. case SerializeJSONProperty (js_get ps k) of
                          None \<Rightarrow> []
                        | Some s \<Rightarrow> [QuoteJSONString k @ CHR '':'' # s])
                 (OwnPropertyKeys ps))"

text \<open>
  Deep equality as key/value sets: two objects are equal when they have the same set of
  keys and deep-equal values under each key, whatever the creation order; two arrays when
  they are equal position by position; two other values when they are the same value.
\<close>

fun deep_eq :: "jsval \<Rightarrow> jsval \<Rightarrow> bool" where
  "deep_eq (JArr xs) w = (case w of JArr ys \<Rightarrow> list_all2 deep_eq xs ys | _ \<Rightarrow> False)"
| "deep_eq (JObj ps) w =
     (case w of
        JObj qs \<Rightarrow> set (map fst ps) = set (map fst qs) \<and>
                   list_all (\<lambda>p. deep_eq (snd p) (js_get qs (fst p))) ps
      | _ \<Rightarrow> False)"
| "deep_eq v w = (v = w)"

text \<open>
  The order in which the keys of \<open>sortedObj\<close> are written, as a function of the key set:
  the sorted keys without \<open>__proto__\<close>, array indices first.
\<close>

definition key_order :: "string set \<Rightarrow> string list" where
  "key_order K = OwnPropertyKeys (map (\<lambda>k. (k, ())) (filter (\<lambda>k. k \<noteq> ''__proto__'') (sorted_list_of_set K)))"

text \<open>
  What may follow the text of a value inside the text of an object: nothing, a comma or
  the closing brace.
\<close>

definition delimited :: "string \<Rightarrow> bool" where
  "delimited r \<longleftrightarrow> r = [] \<or> hd r = CHR '','' \<or> hd r = CHR ''}''"

text \<open>The characters of the decimal text of an integer.\<close>

definition is_numchar :: "char \<Rightarrow> bool" where
  "is_numchar c \<longleftrightarrow> c = CHR ''-'' \<or> (48 \<le> (of_char c :: nat) \<and> (of_char c :: nat) \<le> 57)"

text \<open>The first character of the text of a value tells the kind of the value.\<close>

fun first_char_of :: "jsval \<Rightarrow> char \<Rightarrow> bool" where
  "first_char_of JUndefined c = False"
| "first_char_of JNull c = (c = CHR ''n'')"
| "first_char_of (JBool b) c = (c = (if b then CHR ''t'' else CHR ''f''))"
| "first_char_of (JNum n) c = is_numchar c"
| "first_char_of (JStr s) c = (c = CHR 0x22)"
| "first_char_of (JArr xs) c = (c = CHR ''{'')"
| "first_char_of (JObj ps) c = (c = CHR ''{'')"


section \<open>Properties of the channel name\<close>

lemma ser_simps [simp]:
  "SerializeJSONProperty JUndefined = None"
  "SerializeJSONProperty JNull = Some ''null''"
  "SerializeJSONProperty (JBool b) = Some (if b then ''true'' else ''false'')"
  "SerializeJSONProperty (JNum n) = Some (Number_toString n)"
  "SerializeJSONProperty (JStr s) = Some (QuoteJSONString s)"
  by (simp_all add: SerializeJSONProperty.simps replacer_def)

lemma ser_object:
  "is_object v \<Longrightarrow> SerializeJSONProperty v =
     Some (CHR ''{'' # join_comma (json_members (sortedObj (own_properties v))) @ ''}'')"
  by (subst SerializeJSONProperty.simps) (simp add: replacer_def json_members_def)

lemma sortedObj_Nil [simp]: "sortedObj [] = []"
  by (simp add: sortedObj_def OwnPropertyKeys_def)

lemma json_members_Nil [simp]: "json_members [] = []"
  by (simp add: json_members_def OwnPropertyKeys_def)

lemma stableStringify_empty:
  "stableStringify JUndefined = ''{}''" "stableStringify JNull = ''{}''" "stableStringify (JObj []) = ''{}''"
  "stableStringify (JArr []) = ''{}''"
  by (simp_all add: stableStringify_def JSON_stringify_def ser_object)

text \<open>
  C9. An absent parameter, \<open>null\<close> and the empty object all have the canonical form
  \<open>{}\<close>, so for every query name the three channel names are the same.
\<close>

theorem channel_name_undefined_null_empty: "stableStringify JUndefined = ''{}'' \<and> stableStringify JNull = ''{}'' \<and>
  stableStringify (JObj []) = ''{}'' \<and>
  getRpcChannelName q JUndefined = getRpcChannelName q JNull \<and>
  getRpcChannelName q JNull = getRpcChannelName q (JObj [])"
  by (simp add: stableStringify_empty getRpcChannelName_def nullish_default_def)

lemma of_char_digit_char: "d < 10 \<Longrightarrow> (of_char (digit_char d) :: nat) = 48 + d"
  by (simp add: digit_char_def)

lemma string_to_nat_snoc: "string_to_nat (s @ [c]) = 10 * string_to_nat s + (of_char c - 48)"
  by (simp add: string_to_nat_def)

lemma string_to_nat_nat_to_string: "string_to_nat (nat_to_string n) = n"
proof (induction n rule: nat_to_string.induct)
  case (1 n)
  show ?case
  proof (cases "n < 10")
    case True
    then show ?thesis
      by (subst nat_to_string.simps) (simp add: string_to_nat_def of_char_digit_char)
  next
    case False
    with 1 have "string_to_nat (nat_to_string (n div 10)) = n div 10" by simp
    with False show ?thesis
      by (subst nat_to_string.simps) (simp add: string_to_nat_snoc of_char_digit_char)
  qed
qed

lemma nat_to_string_inj: "nat_to_string m = nat_to_string n \<Longrightarrow> m = n"
  by (metis string_to_nat_nat_to_string)

lemma foldl_js_set_distinct:
  "distinct ks \<Longrightarrow> set ks \<inter> fst ` set acc = {} \<Longrightarrow>
   foldl (\<lambda>obj key. js_set obj key (f key)) acc ks =
     acc @ map (\<lambda>k. (k, f k)) (filter (\<lambda>k. k \<noteq> ''__proto__'') ks)"
proof (induction ks arbitrary: acc)
  case Nil
  then show ?case by simp
next
  case (Cons k ks)
  from Cons.prems have fresh: "k \<notin> fst ` set acc" and dist: "distinct ks" and knot: "k \<notin> set ks"
    by auto
  have step: "js_set acc k (f k) = acc @ (if k = ''__proto__'' then [] else [(k, f k)])"
    using fresh by (simp add: js_set_def)
  have "set ks \<inter> fst ` set (js_set acc k (f k)) = {}"
    using Cons.prems knot by (auto simp: step)
  with dist have "foldl (\<lambda>obj key. js_set obj key (f key)) (js_set acc k (f k)) ks =
      js_set acc k (f k) @ map (\<lambda>k. (k, f k)) (filter (\<lambda>k. k \<noteq> ''__proto__'') ks)"
    by (rule Cons.IH)
  then show ?case by (simp add: step)
qed

lemma distinct_OwnPropertyKeys: "distinct (map fst ps) \<Longrightarrow> distinct (OwnPropertyKeys ps)"
  by (auto simp: OwnPropertyKeys_def)

lemma OwnPropertyKeys_map_fst: "map fst ps = map fst qs \<Longrightarrow> OwnPropertyKeys ps = OwnPropertyKeys qs"
  by (simp add: OwnPropertyKeys_def)

lemma sortedObj_distinct:
  assumes "distinct (map fst ps)"
  shows "sortedObj ps = map (\<lambda>k. (k, js_get ps k))
           (filter (\<lambda>k. k \<noteq> ''__proto__'') (sorted_list_of_set (fst ` set ps)))"
proof -
  have d: "distinct (OwnPropertyKeys ps)"
    using assms by (rule distinct_OwnPropertyKeys)
  then have "sort (OwnPropertyKeys ps) = sorted_list_of_set (set (OwnPropertyKeys ps))"
    by (simp add: sorted_list_of_set_sort_remdups distinct_remdups_id)
  then have s: "sort (OwnPropertyKeys ps) = sorted_list_of_set (fst ` set ps)"
    by (simp add: set_OwnPropertyKeys)
  have "distinct (sort (OwnPropertyKeys ps))" using d by simp
  then show ?thesis
    unfolding sortedObj_def using foldl_js_set_distinct [of "sort (OwnPropertyKeys ps)" "[]" "js_get ps"]
    by (simp add: s)
qed

lemma js_get_map: "k \<in> set ks \<Longrightarrow> js_get (map (\<lambda>k. (k, f k)) ks) k = f k"
  by (induction ks) (auto simp: js_get_def)

lemma json_members_sortedObj:
  assumes "distinct (map fst ps)"
  shows "json_members (sortedObj ps) =
     concat (map (\<lambda>k. case SerializeJSONProperty (js_get ps k) of
                          None \<Rightarrow> []
                        | Some s \<Rightarrow> [QuoteJSONString k @ CHR '':'' # s])
                 (key_order (fst ` set ps)))"
proof -
  let ?ks = "filter (\<lambda>k. k \<noteq> ''__proto__'') (sorted_list_of_set (fst ` set ps))"
  have so: "sortedObj ps = map (\<lambda>k. (k, js_get ps k)) ?ks"
    using assms by (rule sortedObj_distinct)
  have ko: "OwnPropertyKeys (sortedObj ps) = key_order (fst ` set ps)"
    unfolding key_order_def so by (rule OwnPropertyKeys_map_fst) (simp add: comp_def)
  have "\<And>k. k \<in> set (key_order (fst ` set ps)) \<Longrightarrow> js_get (sortedObj ps) k = js_get ps k"
  proof -
    fix k assume "k \<in> set (key_order (fst ` set ps))"
    then have "k \<in> set ?ks"
      by (simp add: key_order_def set_OwnPropertyKeys image_image)
    then show "js_get (sortedObj ps) k = js_get ps k"
      unfolding so by (rule js_get_map)
  qed
  then show ?thesis
    unfolding json_members_def ko by (auto intro!: arg_cong [where f = concat] map_cong)
qed

lemma set_key_order: "finite K \<Longrightarrow> set (key_order K) \<subseteq> K"
  by (auto simp: key_order_def set_OwnPropertyKeys)

lemma ser_object_eq:
  assumes "is_object v" and "is_object w"
    and "distinct (map fst (own_properties v))" and "distinct (map fst (own_properties w))"
    and keys: "fst ` set (own_properties v) = fst ` set (own_properties w)"
    and vals: "\<And>k. k \<in> fst ` set (own_properties v) \<Longrightarrow>
        SerializeJSONProperty (js_get (own_properties v) k) = SerializeJSONProperty (js_get (own_properties w) k)"
  shows "SerializeJSONProperty v = SerializeJSONProperty w"
proof -
  let ?K = "fst ` set (own_properties v)"
  let ?m = "\<lambda>ps k. case SerializeJSONProperty (js_get ps k) of
                          None \<Rightarrow> []
                        | Some s \<Rightarrow> [QuoteJSONString k @ CHR '':'' # s]"
  have sub: "set (key_order ?K) \<subseteq> ?K"
    by (rule set_key_order) simp
  have eq: "map (?m (own_properties v)) (key_order ?K) = map (?m (own_properties w)) (key_order ?K)"
  proof (rule map_cong [OF refl])
    fix k assume "k \<in> set (key_order ?K)"
    with sub have "k \<in> ?K" by blast
    then show "?m (own_properties v) k = ?m (own_properties w) k"
      by (simp add: vals)
  qed
  have "json_members (sortedObj (own_properties v)) = concat (map (?m (own_properties v)) (key_order ?K))"
    using assms(3) by (rule json_members_sortedObj)
  moreover have "json_members (sortedObj (own_properties w)) = concat (map (?m (own_properties w)) (key_order ?K))"
    unfolding keys using assms(4) by (rule json_members_sortedObj)
  ultimately have "json_members (sortedObj (own_properties v)) = json_members (sortedObj (own_properties w))"
    by (simp only: eq)
  with assms(1,2) show ?thesis by (simp add: ser_object)
qed

lemma array_keys: "map fst (own_properties (JArr xs)) = map nat_to_string [0..<length xs]"
  by simp

lemma distinct_array_keys: "distinct (map fst (own_properties (JArr xs)))"
  by (simp add: distinct_map inj_on_def nat_to_string_inj)

lemma js_get_array: "i < length xs \<Longrightarrow> js_get (own_properties (JArr xs)) (nat_to_string i) = xs ! i"
proof -
  assume i: "i < length xs"
  have "distinct (map nat_to_string [0..<length xs])"
    by (simp add: distinct_map inj_on_def nat_to_string_inj)
  with i have "map_of (zip (map nat_to_string [0..<length xs]) xs) (map nat_to_string [0..<length xs] ! i) = Some (xs ! i)"
    by (intro map_of_zip_nth) simp_all
  with i show ?thesis by (simp add: js_get_def)
qed

lemma js_get_member: "distinct (map fst ps) \<Longrightarrow> (k, v) \<in> set ps \<Longrightarrow> js_get ps k = v"
  by (simp add: js_get_def)

lemma deep_eq_ser:
  "wf_jsval p1 \<Longrightarrow> wf_jsval p2 \<Longrightarrow> deep_eq p1 p2 \<Longrightarrow>
   SerializeJSONProperty p1 = SerializeJSONProperty p2"
proof (induction p1 arbitrary: p2)
  case (JArr xs)
  from JArr.prems(3) obtain ys where p2: "p2 = JArr ys" and all2: "list_all2 deep_eq xs ys"
    by (cases p2) auto
  from all2 have len: "length xs = length ys" by (rule list_all2_lengthD)
  show ?case unfolding p2
  proof (rule ser_object_eq)
    show "fst ` set (own_properties (JArr xs)) = fst ` set (own_properties (JArr ys))"
      using len by (simp flip: set_map)
  next
    fix k assume "k \<in> fst ` set (own_properties (JArr xs))"
    then have "k \<in> set (map nat_to_string [0..<length xs])"
      by (simp flip: set_map)
    then obtain i where i: "i < length xs" and k: "k = nat_to_string i" by auto
    have "SerializeJSONProperty (xs ! i) = SerializeJSONProperty (ys ! i)"
    proof (rule JArr.IH)
      show "xs ! i \<in> set xs" using i by simp
      show "wf_jsval (xs ! i)" using JArr.prems(1) i by (simp add: list_all_length)
      show "wf_jsval (ys ! i)" using JArr.prems(2) i len by (simp add: p2 list_all_length)
      show "deep_eq (xs ! i) (ys ! i)" using all2 i by (rule list_all2_nthD)
    qed
    with i len show "SerializeJSONProperty (js_get (own_properties (JArr xs)) k) =
        SerializeJSONProperty (js_get (own_properties (JArr ys)) k)"
      by (simp only: k js_get_array)
  qed (simp_all add: distinct_array_keys del: own_properties.simps)
next
  case (JObj ps)
  from JObj.prems(3) obtain qs where p2: "p2 = JObj qs"
    and keys: "set (map fst ps) = set (map fst qs)"
    and vals: "list_all (\<lambda>p. deep_eq (snd p) (js_get qs (fst p))) ps"
    by (cases p2) auto
  from JObj.prems(1) have dps: "distinct (map fst ps)" and wps: "list_all (\<lambda>p. wf_jsval (snd p)) ps"
    by simp_all
  from JObj.prems(2) have dqs: "distinct (map fst qs)" and wqs: "list_all (\<lambda>p. wf_jsval (snd p)) qs"
    by (simp_all add: p2)
  show ?case unfolding p2
  proof (rule ser_object_eq)
    show "fst ` set (own_properties (JObj ps)) = fst ` set (own_properties (JObj qs))"
      using keys by simp
  next
    fix k assume "k \<in> fst ` set (own_properties (JObj ps))"
    then obtain v where kv: "(k, v) \<in> set ps" by auto
    have g: "js_get ps k = v" using dps kv by (rule js_get_member)
    from kv keys have "k \<in> fst ` set qs" by force
    then have "js_get qs k \<in> snd ` set qs" by (rule js_get_own_key)
    with wqs have w2: "wf_jsval (js_get qs k)" by (auto simp: list_all_iff)
    from kv wps have w1: "wf_jsval v" by (auto simp: list_all_iff)
    from kv vals have de: "deep_eq v (js_get qs k)" by (auto simp: list_all_iff)
    have "SerializeJSONProperty v = SerializeJSONProperty (js_get qs k)"
      using kv w1 w2 de by (intro JObj.IH [of "(k, v)"]) simp_all
    then show "SerializeJSONProperty (js_get (own_properties (JObj ps)) k) =
        SerializeJSONProperty (js_get (own_properties (JObj qs)) k)"
      by (simp add: g)
  qed (simp_all add: dps dqs)
qed simp_all

text \<open>
  C1. Two well-formed parameter values that are deep-equal as key/value sets, whatever the
  creation order of their object keys at any nesting level, have the same canonical form
  and, for every query name, the same channel name.
\<close>

theorem channel_name_key_order_independent:
  assumes "wf_jsval p1" and "wf_jsval p2" and "deep_eq p1 p2"
  shows "stableStringify p1 = stableStringify p2 \<and> getRpcChannelName q p1 = getRpcChannelName q p2"
proof -
  have ser: "SerializeJSONProperty p1 = SerializeJSONProperty p2"
    using assms by (rule deep_eq_ser)
  from assms(3) have nul: "p1 = JUndefined \<longleftrightarrow> p2 = JUndefined" "p1 = JNull \<longleftrightarrow> p2 = JNull"
    by (cases p1; cases p2; auto)+
  have ss: "stableStringify p1 = stableStringify p2"
    using ser nul by (simp add: stableStringify_def JSON_stringify_def)
  have "stableStringify (nullish_default p1) = stableStringify (nullish_default p2)"
    using ser nul by (auto simp: nullish_default_def stableStringify_def JSON_stringify_def)
  with ss show ?thesis by (simp add: getRpcChannelName_def)
qed

theorem channel_name_key_order_independent_witness:
  "wf_jsval (JObj [(''id'', JNum 7), (''tags'', JArr [JStr ''x'', JObj [(''b'', JNull), (''a'', JBool True)]])]) \<and>
   wf_jsval (JObj [(''tags'', JArr [JStr ''x'', JObj [(''a'', JBool True), (''b'', JNull)]]), (''id'', JNum 7)]) \<and>
   deep_eq (JObj [(''id'', JNum 7), (''tags'', JArr [JStr ''x'', JObj [(''b'', JNull), (''a'', JBool True)]])])
           (JObj [(''tags'', JArr [JStr ''x'', JObj [(''a'', JBool True), (''b'', JNull)]]), (''id'', JNum 7)]) \<and>
   stableStringify (JObj [(''id'', JNum 7), (''tags'', JArr [JStr ''x'', JObj [(''b'', JNull), (''a'', JBool True)]])]) =
   stableStringify (JObj [(''tags'', JArr [JStr ''x'', JObj [(''a'', JBool True), (''b'', JNull)]]), (''id'', JNum 7)]) \<and>
   getRpcChannelName ''getPost'' (JObj [(''id'', JNum 7), (''tags'', JArr [JStr ''x'', JObj [(''b'', JNull), (''a'', JBool True)]])]) =
   getRpcChannelName ''getPost'' (JObj [(''tags'', JArr [JStr ''x'', JObj [(''a'', JBool True), (''b'', JNull)]]), (''id'', JNum 7)])"
proof -
  let ?a = "JObj [(''id'', JNum 7), (''tags'', JArr [JStr ''x'', JObj [(''b'', JNull), (''a'', JBool True)]])]"
  let ?b = "JObj [(''tags'', JArr [JStr ''x'', JObj [(''a'', JBool True), (''b'', JNull)]]), (''id'', JNum 7)]"
  have a: "wf_jsval ?a" and b: "wf_jsval ?b" by simp_all
  have e: "deep_eq ?a ?b" by (auto simp: js_get_def)
  from channel_name_key_order_independent [OF a b e, of "''getPost''"] a b e show ?thesis
    by (simp only: simp_thms)
qed

subsection \<open>The canonical form determines the text under every key\<close>

lemma json_escape_cases:
  "json_escape c = [c] \<and> c \<noteq> CHR 0x22 \<and> c \<noteq> CHR 0x5C \<or>
   (\<exists>x. json_escape c = [CHR 0x5C, x] \<and> x \<noteq> CHR ''u'') \<or>
   (\<exists>a b. json_escape c = [CHR 0x5C, CHR ''u'', CHR ''0'', CHR ''0'', a, b])"
  by (auto simp: json_escape_def Let_def)

lemma json_escape_prefix_free:
  assumes "json_escape c @ r = json_escape d @ r'"
  shows "json_escape c = json_escape d \<and> r = r'"
  using json_escape_cases [of c] json_escape_cases [of d] assms by auto

lemma escape_body_unambiguous:
  "concat (map json_escape k) @ CHR 0x22 # x = concat (map json_escape k') @ CHR 0x22 # y \<Longrightarrow>
   concat (map json_escape k) = concat (map json_escape k') \<and> x = y"
proof (induction k arbitrary: k')
  case Nil
  show ?case
  proof (cases k')
    case Nil
    with Nil.prems show ?thesis by simp
  next
    case (Cons d k1)
    with Nil.prems json_escape_cases [of d] show ?thesis by auto
  qed
next
  case (Cons c k1)
  show ?case
  proof (cases k')
    case Nil
    with Cons.prems json_escape_cases [of c] show ?thesis by auto
  next
    case (Cons d k1')
    with Cons.prems have "json_escape c @ (concat (map json_escape k1) @ CHR 0x22 # x) =
        json_escape d @ (concat (map json_escape k1') @ CHR 0x22 # y)"
      by simp
    then have e: "json_escape c = json_escape d"
      and rest: "concat (map json_escape k1) @ CHR 0x22 # x = concat (map json_escape k1') @ CHR 0x22 # y"
      by (auto dest: json_escape_prefix_free)
    from rest have "concat (map json_escape k1) = concat (map json_escape k1') \<and> x = y"
      by (rule Cons.IH)
    with e Cons show ?thesis by simp
  qed
qed

lemma quote_unambiguous:
  "QuoteJSONString k @ x = QuoteJSONString k' @ y \<Longrightarrow> QuoteJSONString k = QuoteJSONString k' \<and> x = y"
  using escape_body_unambiguous [of k x k' y] by (simp add: QuoteJSONString_def)

lemma hex_digit_inj: "a < 16 \<Longrightarrow> b < 16 \<Longrightarrow> hex_digit a = hex_digit b \<Longrightarrow> a = b"
  by (auto simp: hex_digit_def char_of_eq_iff take_bit_eq_mod split: if_splits)

lemma json_escape_control:
  "(of_char c :: nat) < 32 \<Longrightarrow> (of_char d :: nat) < 32 \<Longrightarrow>
   hex_digit (of_char c div 16) = hex_digit (of_char d div 16) \<Longrightarrow>
   hex_digit (of_char c mod 16) = hex_digit (of_char d mod 16) \<Longrightarrow> c = d"
proof -
  assume c: "(of_char c :: nat) < 32" and d: "(of_char d :: nat) < 32"
    and h1: "hex_digit (of_char c div 16) = hex_digit (of_char d div 16)"
    and h2: "hex_digit (of_char c mod 16) = hex_digit (of_char d mod 16)"
  from c d h1 have "(of_char c :: nat) div 16 = of_char d div 16"
    by (intro hex_digit_inj) auto
  moreover from h2 have "(of_char c :: nat) mod 16 = of_char d mod 16"
    by (intro hex_digit_inj) auto
  ultimately have "(of_char c :: nat) = of_char d"
    by (metis div_mult_mod_eq)
  then show "c = d" by simp
qed

lemma of_char_eq_nat: "(of_char c :: nat) = n \<Longrightarrow> (of_char d :: nat) = n \<Longrightarrow> c = d"
  by (metis of_char_eq_iff)

lemma json_escape_inj: "json_escape c = json_escape d \<Longrightarrow> c = d"
  unfolding json_escape_def Let_def
  by (auto split: if_splits dest: of_char_eq_nat json_escape_control)

lemma json_escape_nonempty: "json_escape c \<noteq> []"
  using json_escape_cases [of c] by auto

lemma escape_body_inj:
  "concat (map json_escape k) = concat (map json_escape k') \<Longrightarrow> k = k'"
proof (induction k arbitrary: k')
  case Nil
  then show ?case by (cases k') (simp_all add: json_escape_nonempty)
next
  case (Cons c k1)
  show ?case
  proof (cases k')
    case Nil
    with Cons.prems show ?thesis by (simp add: json_escape_nonempty)
  next
    case (Cons d k1')
    with Cons.prems have "json_escape c @ concat (map json_escape k1) = json_escape d @ concat (map json_escape k1')"
      by simp
    then have "json_escape c = json_escape d" and "concat (map json_escape k1) = concat (map json_escape k1')"
      by (auto dest: json_escape_prefix_free)
    with Cons.IH Cons show ?thesis by (simp add: json_escape_inj)
  qed
qed

lemma QuoteJSONString_inj: "QuoteJSONString k = QuoteJSONString k' \<Longrightarrow> k = k'"
  by (simp add: QuoteJSONString_def escape_body_inj)

lemma digit_char_numchar: "d < 10 \<Longrightarrow> is_numchar (digit_char d)"
  by (simp add: is_numchar_def digit_char_def)

lemma nat_to_string_digits: "list_all is_numchar (nat_to_string n)"
proof (induction n rule: nat_to_string.induct)
  case (1 n)
  show ?case
  proof (cases "n < 10")
    case True
    then show ?thesis
      by (subst nat_to_string.simps) (simp add: digit_char_numchar)
  next
    case False
    with 1 have "list_all is_numchar (nat_to_string (n div 10))" by simp
    with False show ?thesis
      by (subst nat_to_string.simps) (simp add: digit_char_numchar)
  qed
qed

lemma nat_to_string_nonempty: "nat_to_string n \<noteq> []"
  by (subst nat_to_string.simps) simp

lemma Number_toString_chars: "list_all is_numchar (Number_toString i)"
  by (simp add: Number_toString_def nat_to_string_digits is_numchar_def)

lemma Number_toString_nonempty: "Number_toString i \<noteq> []"
  by (simp add: Number_toString_def nat_to_string_nonempty)

lemma ser_hd:
  assumes "SerializeJSONProperty a = Some s"
  shows "\<exists>c cs. s = c # cs \<and> first_char_of a c"
proof (cases a)
  case (JNum n)
  obtain c cs where cs: "Number_toString n = c # cs"
    using Number_toString_nonempty [of n] by (cases "Number_toString n") auto
  with Number_toString_chars [of n] have "is_numchar c" by simp
  with assms JNum cs show ?thesis by auto
next
  case (JArr xs)
  with assms show ?thesis by (auto simp: ser_object)
next
  case (JObj ps)
  with assms show ?thesis by (auto simp: ser_object)
next
  case (JStr u)
  with assms show ?thesis by (auto simp: QuoteJSONString_def)
next
  case (JBool x)
  with assms show ?thesis by (cases x) auto
qed (use assms in auto)

lemma first_char_same_kind:
  assumes "first_char_of a c" and "first_char_of b c"
  shows "a = JNull \<and> b = JNull \<or> (\<exists>x. a = JBool x \<and> b = JBool x) \<or>
         (\<exists>n m. a = JNum n \<and> b = JNum m) \<or> (\<exists>u v. a = JStr u \<and> b = JStr v) \<or>
         is_object a \<and> is_object b"
  using assms by (cases a; cases b) (auto simp: is_numchar_def split: if_splits)

lemma takeWhile_delimited:
  assumes "list_all P s" and "r = [] \<or> \<not> P (hd r)"
  shows "takeWhile P (s @ r) = s"
proof -
  have "takeWhile P r = []"
    using assms(2) by (cases r) auto
  moreover have "takeWhile P (s @ r) = s @ takeWhile P r"
    using assms(1) by (intro takeWhile_append2) (simp add: list_all_iff)
  ultimately show ?thesis by simp
qed

lemma delimited_not_numchar: "delimited r \<Longrightarrow> r = [] \<or> \<not> is_numchar (hd r)"
  by (auto simp: delimited_def is_numchar_def)

lemma number_unambiguous:
  assumes "Number_toString n @ r = Number_toString m @ r'" and "delimited r" and "delimited r'"
  shows "Number_toString n = Number_toString m \<and> r = r'"
proof -
  have "takeWhile is_numchar (Number_toString n @ r) = Number_toString n"
    using Number_toString_chars assms(2) by (intro takeWhile_delimited delimited_not_numchar)
  moreover have "takeWhile is_numchar (Number_toString m @ r') = Number_toString m"
    using Number_toString_chars assms(3) by (intro takeWhile_delimited delimited_not_numchar)
  ultimately have "Number_toString n = Number_toString m"
    using assms(1) by simp
  with assms(1) show ?thesis by simp
qed

lemma join_comma_Cons: "join_comma (m # ms) = m @ (if ms = [] then [] else CHR '','' # join_comma ms)"
  by (cases ms) simp_all

lemma join_members_unambiguous:
  assumes selfdelim: "\<And>s t x y. P s \<Longrightarrow> Q t \<Longrightarrow> s @ x = t @ y \<Longrightarrow> delimited x \<Longrightarrow> delimited y \<Longrightarrow> s = t \<and> x = y"
    and "\<And>m. m \<in> set ms \<Longrightarrow> \<exists>k s. m = QuoteJSONString k @ CHR '':'' # s \<and> P s"
    and "\<And>n. n \<in> set ns \<Longrightarrow> \<exists>k t. n = QuoteJSONString k @ CHR '':'' # t \<and> Q t"
    and "join_comma ms @ CHR ''}'' # r = join_comma ns @ CHR ''}'' # r'"
  shows "ms = ns \<and> r = r'"
  using assms(2-)
proof (induction ms arbitrary: ns)
  case Nil
  show ?case
  proof (cases ns)
    case Nil
    with Nil.prems show ?thesis by simp
  next
    case (Cons n ns')
    with Nil.prems(2) [of n] obtain k t where "n = QuoteJSONString k @ CHR '':'' # t" by auto
    with Nil.prems(3) Cons show ?thesis
      by (simp add: join_comma_Cons QuoteJSONString_def)
  qed
next
  case (Cons m ms')
  from Cons.prems(1) [of m] obtain k s where m: "m = QuoteJSONString k @ CHR '':'' # s" and s: "P s"
    by auto
  show ?case
  proof (cases ns)
    case Nil
    with Cons.prems(3) m show ?thesis
      by (simp add: join_comma_Cons QuoteJSONString_def)
  next
    case (Cons n ns')
    with Cons.prems(2) [of n] obtain k' t where n: "n = QuoteJSONString k' @ CHR '':'' # t" and t: "Q t"
      by auto
    let ?x = "(if ms' = [] then [] else CHR '','' # join_comma ms') @ CHR ''}'' # r"
    let ?y = "(if ns' = [] then [] else CHR '','' # join_comma ns') @ CHR ''}'' # r'"
    from Cons.prems(3) Cons have "QuoteJSONString k @ (CHR '':'' # s @ ?x) = QuoteJSONString k' @ (CHR '':'' # t @ ?y)"
      by (simp add: join_comma_Cons m n)
    then have q: "QuoteJSONString k = QuoteJSONString k'" and st: "s @ ?x = t @ ?y"
      by (auto dest: quote_unambiguous)
    have "delimited ?x" and "delimited ?y"
      by (simp_all add: delimited_def)
    with selfdelim [OF s t st] have eq: "s = t" and xy: "?x = ?y" by simp_all
    from q eq have mn: "m = n" by (simp add: m n)
    show ?thesis
    proof (cases "ms' = []")
      case True
      with xy have "ns' = []" and "r = r'" by (auto split: if_splits)
      with True mn Cons show ?thesis by simp
    next
      case False
      with xy have ne: "ns' \<noteq> []" by (auto split: if_splits)
      with False xy have "join_comma ms' @ CHR ''}'' # r = join_comma ns' @ CHR ''}'' # r'" by simp
      moreover have "\<And>m. m \<in> set ms' \<Longrightarrow> \<exists>k s. m = QuoteJSONString k @ CHR '':'' # s \<and> P s"
        using Cons.prems(1) by simp
      moreover have "\<And>n. n \<in> set ns' \<Longrightarrow> \<exists>k t. n = QuoteJSONString k @ CHR '':'' # t \<and> Q t"
        using Cons.prems(2) Cons by simp
      ultimately have "ms' = ns' \<and> r = r'" by (intro Cons.IH) auto
      with mn Cons show ?thesis by simp
    qed
  qed
qed

lemma sortedObj_values: "snd ` set (sortedObj ps) \<subseteq> snd ` set ps"
proof -
  have "snd ` set (sortedObj ps) \<subseteq> js_get ps ` set (sort (OwnPropertyKeys ps))"
    unfolding sortedObj_def
    using foldl_js_set_values [of "js_get ps" "[]" "sort (OwnPropertyKeys ps)"] by simp
  also have "\<dots> \<subseteq> snd ` set ps"
    by (auto simp: set_OwnPropertyKeys intro: js_get_own_key)
  finally show ?thesis .
qed

lemma json_members_form:
  assumes "m \<in> set (json_members ps)"
  shows "\<exists>k x s. k \<in> fst ` set ps \<and> x = js_get ps k \<and> SerializeJSONProperty x = Some s \<and>
           m = QuoteJSONString k @ CHR '':'' # s"
proof -
  from assms obtain k where k: "k \<in> set (OwnPropertyKeys ps)"
    and m: "m \<in> set (case SerializeJSONProperty (js_get ps k) of
                       None \<Rightarrow> [] | Some s \<Rightarrow> [QuoteJSONString k @ CHR '':'' # s])"
    by (auto simp: json_members_def)
  from m obtain s where "SerializeJSONProperty (js_get ps k) = Some s"
    and "m = QuoteJSONString k @ CHR '':'' # s"
    by (cases "SerializeJSONProperty (js_get ps k)") auto
  with k show ?thesis by (auto simp: set_OwnPropertyKeys)
qed

lemma object_member_child:
  assumes "m \<in> set (json_members (sortedObj (own_properties v)))"
  shows "\<exists>k x s. x \<in> snd ` set (own_properties v) \<and> SerializeJSONProperty x = Some s \<and>
           m = QuoteJSONString k @ CHR '':'' # s"
proof -
  from json_members_form [OF assms] obtain k s
    where k: "k \<in> fst ` set (sortedObj (own_properties v))"
      and s: "SerializeJSONProperty (js_get (sortedObj (own_properties v)) k) = Some s"
      and m: "m = QuoteJSONString k @ CHR '':'' # s"
    by blast
  from k have "js_get (sortedObj (own_properties v)) k \<in> snd ` set (sortedObj (own_properties v))"
    by (rule js_get_own_key)
  with sortedObj_values have "js_get (sortedObj (own_properties v)) k \<in> snd ` set (own_properties v)"
    by blast
  with s m show ?thesis by blast
qed

lemma ser_unambiguous:
  "SerializeJSONProperty a = Some s \<Longrightarrow> SerializeJSONProperty b = Some t \<Longrightarrow>
   s @ r = t @ r' \<Longrightarrow> delimited r \<Longrightarrow> delimited r' \<Longrightarrow> s = t \<and> r = r'"
proof (induction a arbitrary: b s t r r' rule: measure_induct_rule [where f = size])
  case (less a)
  from ser_hd [OF less.prems(1)] obtain c cs where s: "s = c # cs" and ca: "first_char_of a c"
    by blast
  from ser_hd [OF less.prems(2)] obtain c' cs' where t: "t = c' # cs'" and cb: "first_char_of b c'"
    by blast
  from less.prems(3) s t have "c = c'" by simp
  with ca cb have kinds: "a = JNull \<and> b = JNull \<or> (\<exists>x. a = JBool x \<and> b = JBool x) \<or>
         (\<exists>n m. a = JNum n \<and> b = JNum m) \<or> (\<exists>u v. a = JStr u \<and> b = JStr v) \<or>
         is_object a \<and> is_object b"
    by (intro first_char_same_kind) simp_all
  then consider "a = JNull" "b = JNull" | x where "a = JBool x" "b = JBool x"
    | n m where "a = JNum n" "b = JNum m" | u v where "a = JStr u" "b = JStr v"
    | "is_object a" "is_object b"
    by blast
  then show ?case
  proof cases
    case 1
    with less.prems show ?thesis by simp
  next
    case 2
    with less.prems show ?thesis by simp
  next
    case 3
    with less.prems show ?thesis by (auto dest: number_unambiguous)
  next
    case 4
    with less.prems show ?thesis by (auto dest: quote_unambiguous)
  next
    case 5
    let ?ms = "json_members (sortedObj (own_properties a))"
    let ?ns = "json_members (sortedObj (own_properties b))"
    let ?P = "\<lambda>s. \<exists>x. x \<in> snd ` set (own_properties a) \<and> SerializeJSONProperty x = Some s"
    let ?Q = "\<lambda>t. \<exists>y. SerializeJSONProperty y = Some t"
    from 5 less.prems(1,2) have s': "s = CHR ''{'' # join_comma ?ms @ ''}''"
      and t': "t = CHR ''{'' # join_comma ?ns @ ''}''"
      by (simp_all add: ser_object)
    with less.prems(3) have eq: "join_comma ?ms @ CHR ''}'' # r = join_comma ?ns @ CHR ''}'' # r'"
      by simp
    have "?ms = ?ns \<and> r = r'"
    proof (rule join_members_unambiguous [where P = ?P and Q = ?Q, OF _ _ _ eq])
      fix s1 t1 x y
      assume "?P s1" and "?Q t1" and e: "s1 @ x = t1 @ y" and d: "delimited x" "delimited y"
      then obtain x1 y1 where x1: "x1 \<in> snd ` set (own_properties a)"
        and sx: "SerializeJSONProperty x1 = Some s1" and sy: "SerializeJSONProperty y1 = Some t1"
        by blast
      from x1 have "size x1 < size a" by (rule own_properties_size)
      from less.IH [OF this sx sy e d] show "s1 = t1 \<and> x = y" .
    next
      fix m assume "m \<in> set ?ms"
      from object_member_child [OF this]
      show "\<exists>k s. m = QuoteJSONString k @ CHR '':'' # s \<and> ?P s" by blast
    next
      fix n assume "n \<in> set ?ns"
      from object_member_child [OF this]
      show "\<exists>k t. n = QuoteJSONString k @ CHR '':'' # t \<and> ?Q t" by blast
    qed
    with s' t' show ?thesis by simp
  qed
qed

lemma delimited_Nil: "delimited []"
  by (simp add: delimited_def)

lemma object_members_eq:
  assumes "is_object v" and "is_object w" and "SerializeJSONProperty v = SerializeJSONProperty w"
  shows "json_members (sortedObj (own_properties v)) = json_members (sortedObj (own_properties w))"
proof -
  let ?ms = "json_members (sortedObj (own_properties v))"
  let ?ns = "json_members (sortedObj (own_properties w))"
  from assms have eq: "join_comma ?ms @ CHR ''}'' # [] = join_comma ?ns @ CHR ''}'' # []"
    by (simp add: ser_object)
  have "?ms = ?ns \<and> [] = ([] :: string)"
  proof (rule join_members_unambiguous [where P = "\<lambda>s. \<exists>x. SerializeJSONProperty x = Some s"
        and Q = "\<lambda>s. \<exists>x. SerializeJSONProperty x = Some s", OF _ _ _ eq])
    fix s1 t1 x y
    assume "\<exists>x. SerializeJSONProperty x = Some s1" and "\<exists>x. SerializeJSONProperty x = Some t1"
      and "s1 @ x = t1 @ y" and "delimited x" and "delimited y"
    then show "s1 = t1 \<and> x = y" by (auto dest: ser_unambiguous)
  next
    fix m assume "m \<in> set ?ms"
    from object_member_child [OF this]
    show "\<exists>k s. m = QuoteJSONString k @ CHR '':'' # s \<and> (\<exists>x. SerializeJSONProperty x = Some s)" by blast
  next
    fix n assume "n \<in> set ?ns"
    from object_member_child [OF this]
    show "\<exists>k t. n = QuoteJSONString k @ CHR '':'' # t \<and> (\<exists>x. SerializeJSONProperty x = Some t)" by blast
  qed
  then show ?thesis by simp
qed

lemma members_by_key:
  assumes "distinct L"
    and "concat (map (\<lambda>k. case f k of None \<Rightarrow> [] | Some s \<Rightarrow> [QuoteJSONString k @ CHR '':'' # s]) L) =
         concat (map (\<lambda>k. case g k of None \<Rightarrow> [] | Some s \<Rightarrow> [QuoteJSONString k @ CHR '':'' # s]) L)"
    and "k \<in> set L"
  shows "f k = (g k :: string option)"
  using assms
proof (induction L)
  case Nil
  then show ?case by simp
next
  case (Cons a L)
  let ?F = "\<lambda>k. case f k of None \<Rightarrow> [] | Some s \<Rightarrow> [QuoteJSONString k @ CHR '':'' # s]"
  let ?G = "\<lambda>k. case g k of None \<Rightarrow> [] | Some s \<Rightarrow> [QuoteJSONString k @ CHR '':'' # s]"
  have absent: "\<And>h s. QuoteJSONString a @ CHR '':'' # s \<notin>
      set (concat (map (\<lambda>k. case h k of None \<Rightarrow> [] | Some s \<Rightarrow> [QuoteJSONString k @ CHR '':'' # s]) L))"
  proof
    fix h :: "string \<Rightarrow> string option" and s
    assume "QuoteJSONString a @ CHR '':'' # s \<in>
      set (concat (map (\<lambda>k. case h k of None \<Rightarrow> [] | Some s \<Rightarrow> [QuoteJSONString k @ CHR '':'' # s]) L))"
    then obtain k' s' where "k' \<in> set L"
      and "QuoteJSONString a @ CHR '':'' # s = QuoteJSONString k' @ CHR '':'' # s'"
      by (auto split: option.splits)
    then have "a \<in> set L"
      by (auto dest!: quote_unambiguous QuoteJSONString_inj)
    with Cons.prems(1) show False by simp
  qed
  have "f a = g a \<and> concat (map ?F L) = concat (map ?G L)"
  proof (cases "f a")
    case None
    show ?thesis
    proof (cases "g a")
      case None
      with \<open>f a = None\<close> Cons.prems(2) show ?thesis by simp
    next
      case (Some s')
      with None Cons.prems(2) have "concat (map ?F L) = (QuoteJSONString a @ CHR '':'' # s') # concat (map ?G L)"
        by simp
      then have "QuoteJSONString a @ CHR '':'' # s' \<in> set (concat (map ?F L))"
        by (simp only: list.set_intros(1))
      with absent [of s' f] show ?thesis by (rule notE)
    qed
  next
    case (Some s)
    show ?thesis
    proof (cases "g a")
      case None
      with Some Cons.prems(2) have "concat (map ?G L) = (QuoteJSONString a @ CHR '':'' # s) # concat (map ?F L)"
        by simp
      then have "QuoteJSONString a @ CHR '':'' # s \<in> set (concat (map ?G L))"
        by (simp only: list.set_intros(1))
      with absent [of s g] show ?thesis by (rule notE)
    next
      case (Some s')
      with \<open>f a = Some s\<close> Cons.prems(2) show ?thesis by simp
    qed
  qed
  with Cons show ?case by auto
qed

lemma distinct_key_order: "finite K \<Longrightarrow> distinct (key_order K)"
  unfolding key_order_def by (rule distinct_OwnPropertyKeys) (simp add: comp_def distinct_map inj_on_def)

lemma set_key_order_eq: "finite K \<Longrightarrow> set (key_order K) = K - {''__proto__''}"
  by (auto simp: key_order_def set_OwnPropertyKeys image_image)

lemma canonical_form_by_key:
  assumes "is_object v" and "is_object w"
    and dv: "distinct (map fst (own_properties v))" and dw: "distinct (map fst (own_properties w))"
    and keys: "fst ` set (own_properties v) = fst ` set (own_properties w)"
    and eq: "SerializeJSONProperty v = SerializeJSONProperty w"
    and k: "k \<in> fst ` set (own_properties v)" "k \<noteq> ''__proto__''"
  shows "SerializeJSONProperty (js_get (own_properties v) k) =
         SerializeJSONProperty (js_get (own_properties w) k)"
proof -
  let ?K = "fst ` set (own_properties v)"
  have "json_members (sortedObj (own_properties v)) = json_members (sortedObj (own_properties w))"
    using assms(1,2) eq by (rule object_members_eq)
  then have e: "concat (map (\<lambda>k. case SerializeJSONProperty (js_get (own_properties v) k) of
                          None \<Rightarrow> [] | Some s \<Rightarrow> [QuoteJSONString k @ CHR '':'' # s]) (key_order ?K)) =
             concat (map (\<lambda>k. case SerializeJSONProperty (js_get (own_properties w) k) of
                          None \<Rightarrow> [] | Some s \<Rightarrow> [QuoteJSONString k @ CHR '':'' # s]) (key_order ?K))"
    using json_members_sortedObj [OF dv] json_members_sortedObj [OF dw] by (simp add: keys)
  have d: "distinct (key_order ?K)" by (rule distinct_key_order) simp
  have m: "k \<in> set (key_order ?K)" using k by (simp add: set_key_order_eq)
  show ?thesis
    using members_by_key [where f = "\<lambda>k. SerializeJSONProperty (js_get (own_properties v) k)"
          and g = "\<lambda>k. SerializeJSONProperty (js_get (own_properties w) k)", OF d e m] .
qed

lemma nat_to_string_not_proto: "nat_to_string i \<noteq> ''__proto__''"
proof
  assume "nat_to_string i = ''__proto__''"
  with nat_to_string_digits [of i] have "list_all is_numchar ''__proto__''" by simp
  then show False by (simp add: is_numchar_def)
qed

lemma array_key_set: "fst ` set (own_properties (JArr xs)) = nat_to_string ` {0..<length xs}"
proof -
  have "fst ` set (own_properties (JArr xs)) = set (map fst (own_properties (JArr xs)))"
    by (simp only: set_map)
  also have "\<dots> = set (map nat_to_string [0..<length xs])"
    by (simp only: array_keys)
  also have "\<dots> = nat_to_string ` {0..<length xs}"
    by simp
  finally show ?thesis .
qed

lemma array_forms_differ:
  assumes "length xs = length ys" and "i < length xs"
    and "SerializeJSONProperty (xs ! i) \<noteq> SerializeJSONProperty (ys ! i)"
  shows "SerializeJSONProperty (JArr xs) \<noteq> SerializeJSONProperty (JArr ys)"
proof
  assume eq: "SerializeJSONProperty (JArr xs) = SerializeJSONProperty (JArr ys)"
  have keys: "fst ` set (own_properties (JArr xs)) = fst ` set (own_properties (JArr ys))"
    using assms(1) by (simp only: array_key_set)
  have k: "nat_to_string i \<in> fst ` set (own_properties (JArr xs))"
    using assms(2) by (simp only: array_key_set) simp
  have "SerializeJSONProperty (js_get (own_properties (JArr xs)) (nat_to_string i)) =
        SerializeJSONProperty (js_get (own_properties (JArr ys)) (nat_to_string i))"
    using keys eq k
    by (intro canonical_form_by_key distinct_array_keys nat_to_string_not_proto) simp_all
  moreover have "js_get (own_properties (JArr xs)) (nat_to_string i) = xs ! i"
    using assms(2) by (rule js_get_array)
  moreover have "js_get (own_properties (JArr ys)) (nat_to_string i) = ys ! i"
    using assms(1,2) by (intro js_get_array) simp
  ultimately show False using assms(3) by (simp only:)
qed

lemma js_set_existing:
  "k \<in> fst ` set ps \<Longrightarrow> k \<noteq> ''__proto__'' \<Longrightarrow>
   map fst (js_set ps k v) = map fst ps"
  by (simp add: js_set_def comp_def cong: map_cong)

lemma js_get_js_set:
  "k \<in> fst ` set ps \<Longrightarrow> k \<noteq> ''__proto__'' \<Longrightarrow> js_get (js_set ps k v) k = v"
proof (induction ps)
  case Nil
  then show ?case by simp
next
  case (Cons p ps)
  then show ?case
    by (cases "fst p = k") (auto simp: js_set_def js_get_def)
qed

lemma field_forms_differ:
  assumes "distinct (map fst ps)" and "(k, v) \<in> set ps" and "k \<noteq> ''__proto__''"
    and "SerializeJSONProperty v \<noteq> SerializeJSONProperty w"
  shows "SerializeJSONProperty (JObj ps) \<noteq> SerializeJSONProperty (JObj (js_set ps k w))"
proof
  assume eq: "SerializeJSONProperty (JObj ps) = SerializeJSONProperty (JObj (js_set ps k w))"
  from assms(2) have kin: "k \<in> fst ` set ps" by force
  have fsts: "map fst (js_set ps k w) = map fst ps"
    using kin assms(3) by (rule js_set_existing)
  have "SerializeJSONProperty (js_get (own_properties (JObj ps)) k) =
        SerializeJSONProperty (js_get (own_properties (JObj (js_set ps k w))) k)"
  proof (rule canonical_form_by_key [OF _ _ _ _ _ eq])
    show "distinct (map fst (own_properties (JObj (js_set ps k w))))"
      using assms(1) by (simp add: fsts)
    show "fst ` set (own_properties (JObj ps)) = fst ` set (own_properties (JObj (js_set ps k w)))"
      using fsts by (metis own_properties.simps(1) set_map)
  qed (use assms kin in simp_all)
  moreover have "js_get ps k = v" using assms(1,2) by (rule js_get_member)
  moreover have "js_get (js_set ps k w) k = w" using kin assms(3) by (rule js_get_js_set)
  ultimately show False using assms(4) by simp
qed

lemma stableStringify_object: "is_object v \<Longrightarrow> SerializeJSONProperty v = Some (stableStringify v)"
  by (cases v) (simp_all add: stableStringify_def JSON_stringify_def ser_object)

lemma array_forms_equal:
  assumes "length xs = length ys"
    and "\<forall>i<length xs. SerializeJSONProperty (xs ! i) = SerializeJSONProperty (ys ! i)"
  shows "SerializeJSONProperty (JArr xs) = SerializeJSONProperty (JArr ys)"
proof (rule ser_object_eq)
  show "fst ` set (own_properties (JArr xs)) = fst ` set (own_properties (JArr ys))"
    using assms(1) by (simp only: array_key_set)
next
  fix k assume "k \<in> fst ` set (own_properties (JArr xs))"
  then obtain i where i: "i < length xs" and k: "k = nat_to_string i"
    by (auto simp only: array_key_set) auto
  have "js_get (own_properties (JArr xs)) k = xs ! i"
    unfolding k using i by (rule js_get_array)
  moreover have "js_get (own_properties (JArr ys)) k = ys ! i"
    unfolding k using i assms(1) by (intro js_get_array) simp
  ultimately show "SerializeJSONProperty (js_get (own_properties (JArr xs)) k) =
        SerializeJSONProperty (js_get (own_properties (JArr ys)) k)"
    using assms(2) i by simp
qed (simp_all add: distinct_array_keys del: own_properties.simps)

lemma array_forms_iff:
  assumes "length xs = length ys"
  shows "SerializeJSONProperty (JArr xs) = SerializeJSONProperty (JArr ys) \<longleftrightarrow>
         (\<forall>i<length xs. SerializeJSONProperty (xs ! i) = SerializeJSONProperty (ys ! i))"
  using assms array_forms_differ [of xs ys] array_forms_equal [of xs ys] by blast

lemma map_of_replace_other:
  "k' \<noteq> k \<Longrightarrow> map_of (map (\<lambda>p. if fst p = k then (k, v) else p) ps) k' = map_of ps k'"
  by (induction ps) auto

lemma js_get_js_set_other:
  "k' \<noteq> k \<Longrightarrow> k \<in> fst ` set ps \<Longrightarrow> js_get (js_set ps k v) k' = js_get ps k'"
  by (simp add: js_set_def js_get_def map_of_replace_other)

lemma field_forms_equal:
  assumes "distinct (map fst ps)" and "(k, v) \<in> set ps" and "k \<noteq> ''__proto__''"
    and "SerializeJSONProperty v = SerializeJSONProperty w"
  shows "SerializeJSONProperty (JObj ps) = SerializeJSONProperty (JObj (js_set ps k w))"
proof (rule ser_object_eq)
  from assms(2) have kin: "k \<in> fst ` set ps" by force
  have fsts: "map fst (js_set ps k w) = map fst ps"
    using kin assms(3) by (rule js_set_existing)
  show "distinct (map fst (own_properties (JObj ps)))" using assms(1) by simp
  show "distinct (map fst (own_properties (JObj (js_set ps k w))))"
    using assms(1) by (simp add: fsts)
  show "fst ` set (own_properties (JObj ps)) = fst ` set (own_properties (JObj (js_set ps k w)))"
    using fsts by (metis own_properties.simps(1) set_map)
  fix k' assume "k' \<in> fst ` set (own_properties (JObj ps))"
  show "SerializeJSONProperty (js_get (own_properties (JObj ps)) k') =
        SerializeJSONProperty (js_get (own_properties (JObj (js_set ps k w))) k')"
  proof (cases "k' = k")
    case True
    have "js_get ps k = v" using assms(1,2) by (rule js_get_member)
    moreover have "js_get (js_set ps k w) k = w" using kin assms(3) by (rule js_get_js_set)
    ultimately show ?thesis using True assms(4) by simp
  next
    case False
    then show ?thesis using kin by (simp add: js_get_js_set_other)
  qed
qed simp_all

lemma field_forms_iff:
  assumes "distinct (map fst ps)" and "(k, v) \<in> set ps" and "k \<noteq> ''__proto__''"
  shows "SerializeJSONProperty (JObj ps) = SerializeJSONProperty (JObj (js_set ps k w)) \<longleftrightarrow>
         SerializeJSONProperty v = SerializeJSONProperty w"
  using field_forms_differ [OF assms] field_forms_equal [OF assms] by blast

lemma reordering_moves_a_text:
  assumes "length xs = length ys" and "set ys \<subseteq> set xs"
    and "distinct (map SerializeJSONProperty xs)" and "ys \<noteq> xs"
  shows "\<exists>i<length xs. SerializeJSONProperty (xs ! i) \<noteq> SerializeJSONProperty (ys ! i)"
proof -
  from assms(1,4) obtain i where i: "i < length xs" and ne: "xs ! i \<noteq> ys ! i"
    by (metis nth_equalityI)
  from i assms(1,2) have "ys ! i \<in> set xs" by (metis nth_mem subsetD)
  then obtain j where j: "j < length xs" and yj: "ys ! i = xs ! j"
    by (auto simp: in_set_conv_nth)
  with ne have "i \<noteq> j" by auto
  with assms(3) i j have "SerializeJSONProperty (xs ! i) \<noteq> SerializeJSONProperty (xs ! j)"
    by (simp add: distinct_conv_nth)
  with yj i show ?thesis by auto
qed


text \<open>The digests of the canonical forms of the two orders of the array of the strings a and b.\<close>

lemma digest_a_b:
  "sha256 (stableStringify (JArr [JStr ''a'', JStr ''b''])) =
   ''928c6a65ba0dbed39e89e9afa1907f8d8098ebb89330a739340103cad6ac7eda''"
  by code_simp

lemma digest_b_a:
  "sha256 (stableStringify (JArr [JStr ''b'', JStr ''a''])) =
   ''b27752c9368e51f476e53e5492b24a94ddd5d578335989a5f069e9cbe0dace01''"
  by code_simp

text \<open>
  C7, as the code has it. The replacer turns an array into an object keyed by index, so two
  arrays of the same length have the same canonical form exactly when, at every position,
  \<open>JSON.stringify\<close> with the replacer writes the same text for the two elements (the text
  \<open>null\<close> for \<open>null\<close>, nothing for \<open>undefined\<close>, an index-keyed object for an array);
  the same holds for an array that is the value of a key other than \<open>__proto__\<close> of an object
  parameter. A reordering of an array whose elements have pairwise different texts
  therefore changes the canonical form. The channel names of the two arrays are equal
  exactly when the digests of the two canonical forms are; for the two orders of the array
  of the strings a and b they differ, under every query name.
\<close>

theorem array_order_changes_canonical_form:
  assumes "length xs = length ys"
  shows "(stableStringify (JArr xs) = stableStringify (JArr ys) \<longleftrightarrow>
            (\<forall>i<length xs. SerializeJSONProperty (xs ! i) = SerializeJSONProperty (ys ! i))) \<and>
         (distinct (map fst ps) \<and> (k, JArr xs) \<in> set ps \<and> k \<noteq> ''__proto__'' \<longrightarrow>
            (stableStringify (JObj ps) = stableStringify (JObj (js_set ps k (JArr ys))) \<longleftrightarrow>
               (\<forall>i<length xs. SerializeJSONProperty (xs ! i) = SerializeJSONProperty (ys ! i)))) \<and>
         (set ys \<subseteq> set xs \<and> distinct (map SerializeJSONProperty xs) \<and> ys \<noteq> xs \<longrightarrow>
            stableStringify (JArr xs) \<noteq> stableStringify (JArr ys)) \<and>
         (getRpcChannelName q (JArr xs) = getRpcChannelName q (JArr ys) \<longleftrightarrow>
            sha256 (stableStringify (JArr xs)) = sha256 (stableStringify (JArr ys))) \<and>
         getRpcChannelName q (JArr [JStr ''a'', JStr ''b'']) \<noteq>
         getRpcChannelName q (JArr [JStr ''b'', JStr ''a''])"
proof -
  let ?same = "\<forall>i<length xs. SerializeJSONProperty (xs ! i) = SerializeJSONProperty (ys ! i)"
  have a: "SerializeJSONProperty (JArr xs) = SerializeJSONProperty (JArr ys) \<longleftrightarrow> ?same"
    using assms by (rule array_forms_iff)
  have s: "\<And>v w. is_object v \<Longrightarrow> is_object w \<Longrightarrow>
      stableStringify v = stableStringify w \<longleftrightarrow> SerializeJSONProperty v = SerializeJSONProperty w"
    by (simp add: stableStringify_object)
  have 1: "stableStringify (JArr xs) = stableStringify (JArr ys) \<longleftrightarrow> ?same"
    using a by (simp add: s)
  have 2: "stableStringify (JObj ps) = stableStringify (JObj (js_set ps k (JArr ys))) \<longleftrightarrow> ?same"
    if "distinct (map fst ps)" and "(k, JArr xs) \<in> set ps" and "k \<noteq> ''__proto__''"
    using field_forms_iff [OF that, of "JArr ys"] a by (simp add: s)
  have 3: "stableStringify (JArr xs) \<noteq> stableStringify (JArr ys)"
    if "set ys \<subseteq> set xs" and "distinct (map SerializeJSONProperty xs)" and "ys \<noteq> xs"
    using reordering_moves_a_text [OF assms that] 1 by blast
  have 4: "getRpcChannelName q (JArr xs) = getRpcChannelName q (JArr ys) \<longleftrightarrow>
            sha256 (stableStringify (JArr xs)) = sha256 (stableStringify (JArr ys))"
    by (simp add: getRpcChannelName_def nullish_default_def)
  have 5: "getRpcChannelName q (JArr [JStr ''a'', JStr ''b'']) \<noteq>
           getRpcChannelName q (JArr [JStr ''b'', JStr ''a''])"
    by (simp add: getRpcChannelName_def nullish_default_def digest_a_b digest_b_a)
  from 1 2 3 4 5 show ?thesis by blast
qed

theorem array_order_changes_canonical_form_witness:
  "stableStringify (JArr [JStr ''a'', JStr ''b'']) = ''{\"0\":\"a\",\"1\":\"b\"}'' \<and>
   stableStringify (JArr [JStr ''b'', JStr ''a'']) = ''{\"0\":\"b\",\"1\":\"a\"}'' \<and>
   stableStringify (JArr [JStr ''a'', JStr ''b'']) \<noteq> stableStringify (JArr [JStr ''b'', JStr ''a'']) \<and>
   stableStringify (JObj [(''tags'', JArr [JStr ''a'', JStr ''b''])]) \<noteq>
   stableStringify (JObj (js_set [(''tags'', JArr [JStr ''a'', JStr ''b''])] ''tags'' (JArr [JStr ''b'', JStr ''a'']))) \<and>
   getRpcChannelName ''getPosts'' (JArr [JStr ''a'', JStr ''b'']) =
     ''query_getPosts_928c6a65ba0dbed39e89e9afa1907f8d8098ebb89330a739340103cad6ac7eda'' \<and>
   getRpcChannelName ''getPosts'' (JArr [JStr ''b'', JStr ''a'']) =
     ''query_getPosts_b27752c9368e51f476e53e5492b24a94ddd5d578335989a5f069e9cbe0dace01'' \<and>
   getRpcChannelName ''getPosts'' (JArr [JStr ''a'', JStr ''b'']) \<noteq>
   getRpcChannelName ''getPosts'' (JArr [JStr ''b'', JStr ''a'']) \<and>
   sha256 (stableStringify (JArr [JStr ''a'', JStr ''b''])) \<noteq>
   sha256 (stableStringify (JArr [JStr ''b'', JStr ''a'']))"
proof -
  let ?xs = "[JStr ''a'', JStr ''b'']" and ?ys = "[JStr ''b'', JStr ''a'']"
  have l: "length ?xs = length ?ys" by simp
  have d: "\<not> (\<forall>i<length ?xs. SerializeJSONProperty (?xs ! i) = SerializeJSONProperty (?ys ! i))"
    by (auto simp: QuoteJSONString_def json_escape_def intro!: exI [of _ 0])
  have r: "set ?ys \<subseteq> set ?xs \<and> distinct (map SerializeJSONProperty ?xs) \<and> ?ys \<noteq> ?xs"
    by (simp add: QuoteJSONString_def json_escape_def)
  have f1: "stableStringify (JArr ?xs) = ''{\"0\":\"a\",\"1\":\"b\"}''" by code_simp
  have f2: "stableStringify (JArr ?ys) = ''{\"0\":\"b\",\"1\":\"a\"}''" by code_simp
  have n1: "getRpcChannelName ''getPosts'' (JArr ?xs) =
      ''query_getPosts_928c6a65ba0dbed39e89e9afa1907f8d8098ebb89330a739340103cad6ac7eda''"
    by (simp add: getRpcChannelName_def nullish_default_def digest_a_b)
  have n2: "getRpcChannelName ''getPosts'' (JArr ?ys) =
      ''query_getPosts_b27752c9368e51f476e53e5492b24a94ddd5d578335989a5f069e9cbe0dace01''"
    by (simp add: getRpcChannelName_def nullish_default_def digest_b_a)
  from array_order_changes_canonical_form [OF l, where ps = "[(''tags'', JArr ?xs)]"
      and k = "''tags''" and q = "''getPosts''"] d r f1 f2 n1 n2
  show ?thesis by simp
qed

text \<open>
  C7 as stated fails: the empty array and the empty object are distinct elements with the
  same canonical text, and exchanging them changes neither the canonical form nor the
  channel name.
\<close>

theorem array_order_same_canonical_form:
  "JArr [] \<noteq> JObj [] \<and> JArr [JArr [], JObj []] \<noteq> JArr [JObj [], JArr []] \<and>
   stableStringify (JArr [JArr [], JObj []]) = stableStringify (JArr [JObj [], JArr []]) \<and>
   getRpcChannelName ''getPosts'' (JArr [JArr [], JObj []]) =
   getRpcChannelName ''getPosts'' (JArr [JObj [], JArr []])"
proof -
  have "stableStringify (JArr [JArr [], JObj []]) = stableStringify (JArr [JObj [], JArr []])"
    by code_simp
  then show ?thesis
    by (simp add: getRpcChannelName_def nullish_default_def)
qed

text \<open>
  The text of an element is the one written in place: as parameters \<open>null\<close> and the empty
  object have the same canonical form, and exchanging them inside an array changes it.
\<close>

lemma null_and_empty_object_not_exchangeable:
  "stableStringify JNull = stableStringify (JObj []) \<and>
   stableStringify (JArr [JNull, JObj []]) = ''{\"0\":null,\"1\":{}}'' \<and>
   stableStringify (JArr [JObj [], JNull]) = ''{\"0\":{},\"1\":null}''"
  by code_simp

section \<open>Properties of the executors\<close>

lemmas promise_defs =
  await_def resolve_def reject_def call_def tryCatch_def validated_def not_awaited_def Let_def

lemmas demo_defs =
  demo_rpc_def offline_rpc_def LiveRPC_def demo_config_def demo_socket_def failing_socket_def
  getPost_def getPosts_def getSecret_def getUser_def deleteAllPosts_def wipeSecrets_def
  createPost_def demo_request_def

text \<open>
  C3, at an authorization predicate that returns \<open>false\<close>: the value is ignored, the
  handler is invoked and its result is returned, for a query and for a mutation alike
  (the mutation then goes on to invalidate its target queries).
\<close>

theorem authorization_false_still_runs_handler:
  "query_fn demo_rpc ''getSecret'' getSecret JNull (demo_request ''/rpc/query'' ''getSecret'' JNull) True =
     (Inr (JStr ''secret''), [AuthorizationCalled ''getSecret'' JNull, QueryCalled ''getSecret'' JNull]) \<and>
   mutation_fn demo_rpc ''wipeSecrets'' wipeSecrets (JObj []) (demo_request ''/rpc/mutation'' ''wipeSecrets'' (JObj [])) True =
     (Inr (JStr ''wiped''),
      [AuthorizationCalled ''wipeSecrets'' (JObj []), MutationCalled ''wipeSecrets'' (JObj []),
       InvalidateParamsCalled ''getPosts'' (JObj []) (JStr ''wiped''),
       InvalidateParamsCalled ''getPost'' (JObj []) (JStr ''wiped''),
       QueryCalled ''getPost'' (JObj [(''id'', JNum 1)]),
       Broadcast (getRpcChannelName ''getPost'' (JObj [(''id'', JNum 1)])) ''update''
         (JObj [(''post'', JObj [(''id'', JNum 1)])])])"
  by (simp add: query_fn_def mutation_fn_def validateParams_def lookup_property_def promise_defs demo_defs fan_out_def
      invalidate_target_def invalidate_def)

text \<open>
  C4, at a valid request: \<open>batchInvalidate\<close> recomputes the query and calls the
  transport's \<open>broadcast\<close> once on the query's channel, before it returns
  \<open>{result, channel}\<close>.
\<close>

theorem batchInvalidate_broadcasts:
  "batchInvalidate demo_rpc ''getPost'' getPost (JObj [(''id'', JNum 1)]) (demo_request ''/rpc/mutation'' ''deleteAllPosts'' JUndefined) =
     (Inr (JObj [(''post'', JObj [(''id'', JNum 1)])], getRpcChannelName ''getPost'' (JObj [(''id'', JNum 1)])),
      [QueryCalled ''getPost'' (JObj [(''id'', JNum 1)]),
       Broadcast (getRpcChannelName ''getPost'' (JObj [(''id'', JNum 1)])) ''update'' (JObj [(''post'', JObj [(''id'', JNum 1)])])])"
  by (simp add: batchInvalidate_def validateParams_def lookup_property_def promise_defs demo_defs)

text \<open>
  C6. When the raw parameters fail the schema of a query or of a mutation, the execution
  fails with the \<open>HTTPException\<close> of status 400 that carries the validator's message
  (\<open>Invalid params\<close> when the validator gives none), and nothing has been called: neither
  the authorization predicate nor the handler.
\<close>

theorem invalid_params_rejected:
  "(map_of (queries (config rpc)) name = Some qd \<and> q_safeParse qd params = ParseError msg \<longrightarrow>
      query_fn rpc name qd params req withAuth =
        (Inl (HTTPException 400 (case msg of Some m \<Rightarrow> m | None \<Rightarrow> ''Invalid params'')), [])) \<and>
   (map_of (mutations (config rpc)) name = Some md \<and> m_safeParse md params = ParseError msg \<longrightarrow>
      mutation_fn rpc name md params req withAuth =
        (Inl (HTTPException 400 (case msg of Some m \<Rightarrow> m | None \<Rightarrow> ''Invalid params'')), []))"
  by (simp add: query_fn_def mutation_fn_def validateParams_def lookup_property_def promise_defs)

theorem invalid_params_rejected_witness:
  "query_fn demo_rpc ''getPost'' getPost (JObj [(''id'', JStr ''x'')]) (demo_request ''/rpc/query'' ''getPost'' (JObj [(''id'', JStr ''x'')])) True =
     (Inl (HTTPException 400 ''Required''), []) \<and>
   mutation_fn demo_rpc ''wipeSecrets'' wipeSecrets JNull (demo_request ''/rpc/mutation'' ''wipeSecrets'' JNull) True =
     (Inl (HTTPException 400 ''Invalid params''), [])"
proof -
  have q: "map_of (queries (config demo_rpc)) ''getPost'' = Some getPost"
    by (simp add: demo_rpc_def LiveRPC_def demo_config_def)
  have qp: "q_safeParse getPost (JObj [(''id'', JStr ''x'')]) = ParseError (Some ''Required'')"
    by (simp add: getPost_def)
  have m: "map_of (mutations (config demo_rpc)) ''wipeSecrets'' = Some wipeSecrets"
    by (simp add: demo_rpc_def LiveRPC_def demo_config_def)
  have mp: "m_safeParse wipeSecrets JNull = ParseError None"
    by (simp add: wipeSecrets_def)
  from invalid_params_rejected [where rpc = demo_rpc and name = "''getPost''" and qd = getPost
         and params = "JObj [(''id'', JStr ''x'')]" and msg = "Some ''Required''"
         and req = "demo_request ''/rpc/query'' ''getPost'' (JObj [(''id'', JStr ''x'')])"
         and withAuth = True] q qp
  have 1: "query_fn demo_rpc ''getPost'' getPost (JObj [(''id'', JStr ''x'')]) (demo_request ''/rpc/query'' ''getPost'' (JObj [(''id'', JStr ''x'')])) True =
     (Inl (HTTPException 400 ''Required''), [])" by simp
  from invalid_params_rejected [where rpc = demo_rpc and name = "''wipeSecrets''" and params = JNull and msg = None
         and md = wipeSecrets and req = "demo_request ''/rpc/mutation'' ''wipeSecrets'' JNull"
         and withAuth = True] m mp
  have 2: "mutation_fn demo_rpc ''wipeSecrets'' wipeSecrets JNull (demo_request ''/rpc/mutation'' ''wipeSecrets'' JNull) True =
     (Inl (HTTPException 400 ''Invalid params''), [])" by simp
  from 1 2 show ?thesis by simp
qed

text \<open>
  C8, as the code has it: for a path that ends with neither \<open>/rpc/query\<close> nor
  \<open>/rpc/mutation\<close>, \<open>handleRequest\<close> returns \<open>undefined\<close>: no response and no
  exception, and no executor, handler or transport operation has been called.
\<close>

theorem unknown_suffix_returns_nothing:
  assumes "\<not> endsWith (pathname c) ''/rpc/query''" and "\<not> endsWith (pathname c) ''/rpc/mutation''"
  shows "handleRequest rpc c = (Inr None, [])"
  using assms by (simp add: handleRequest_def resolve_def)

text \<open>C8 as stated fails: the request is answered with no response at all, not an error.\<close>

theorem unknown_suffix_no_error_response:
  "handleRequest demo_rpc (demo_request ''/rpc/subscribe'' ''getPost'' (JObj [(''id'', JNum 1)])) = (Inr None, [])"
  by (simp add: handleRequest_def resolve_def endsWith_def demo_request_def)

theorem unknown_suffix_returns_nothing_witness:
  "\<not> endsWith (pathname (demo_request ''/rpc/query/extra'' ''getPosts'' JUndefined)) ''/rpc/query'' \<and>
   \<not> endsWith (pathname (demo_request ''/rpc/query/extra'' ''getPosts'' JUndefined)) ''/rpc/mutation'' \<and>
   handleRequest demo_rpc (demo_request ''/rpc/query/extra'' ''getPosts'' JUndefined) = (Inr None, [])"
proof -
  have a: "\<not> endsWith (pathname (demo_request ''/rpc/query/extra'' ''getPosts'' JUndefined)) ''/rpc/query''"
    by (simp add: endsWith_def demo_request_def)
  have b: "\<not> endsWith (pathname (demo_request ''/rpc/query/extra'' ''getPosts'' JUndefined)) ''/rpc/mutation''"
    by (simp add: endsWith_def demo_request_def)
  from unknown_suffix_returns_nothing [OF a b, of demo_rpc] a b show ?thesis by simp
qed

lemma Promise_all_resolved:
  "Promise_all (map (\<lambda>x. (Inr (g x), t x)) xs) = (Inr (map g xs), concat (map t xs))"
  by (induction xs) simp_all

lemma foldl_push_last:
  "foldl (\<lambda>acc item.
              (let acc1 = (if length acc = 0 then acc @ [[]] else acc)
               in acc1 [length acc1 - 1 := acc1 ! (length acc1 - 1) @ [item]])) [xs] items = [xs @ items]"
  by (induction items arbitrary: xs) (simp_all add: Let_def)

lemma toBroadcast_single_batch:
  "toBroadcast broadcasts =
     (if successful_items broadcasts = [] then [] else [successful_items broadcasts])"
proof (cases "successful_items broadcasts")
  case Nil
  then show ?thesis by (simp add: toBroadcast_def)
next
  case (Cons item items)
  then show ?thesis
    using foldl_push_last [of "[item]" items] by (simp add: toBroadcast_def Let_def)
qed

lemma successful_items_all:
  "successful_items (map (\<lambda>x. BatchSuccess (c x) (r x)) xs) = map (\<lambda>x. BroadcastItem (c x) ''update'' (r x)) xs"
  by (induction xs) (simp_all add: successful_items_def)

lemma batch_sizes_append: "batch_sizes (xs @ ys) = batch_sizes xs @ batch_sizes ys"
  by (induction xs rule: batch_sizes.induct) simp_all

lemma batch_element_getPost:
  "batch_element demo_rpc ''getPost'' req (JObj [(''id'', JNum i)]) =
     (Inr (BatchSuccess (getRpcChannelName ''getPost'' (JObj [(''id'', JNum i)])) (JObj [(''post'', JObj [(''id'', JNum i)])])),
      [QueryCalled ''getPost'' (JObj [(''id'', JNum i)]),
       Broadcast (getRpcChannelName ''getPost'' (JObj [(''id'', JNum i)])) ''update'' (JObj [(''post'', JObj [(''id'', JNum i)])])])"
  by (simp add: batch_element_def batchInvalidate_def validateParams_def lookup_property_def promise_defs demo_defs)

lemma batch_sizes_concat_no_batch:
  "batch_sizes (concat (map (\<lambda>x. [QueryCalled (a x) (b x), Broadcast (c x) (d x) (e x)]) xs)) = []"
  by (induction xs) simp_all

lemma demo_batchBroadcast: "batchBroadcast (socket demo_rpc) items = Inr ()"
  by (simp add: demo_defs)

text \<open>
  C2, at a mutation whose single target query receives 25 parameter sets that all
  recompute, with \<open>maxBatchSize = 10\<close>: \<open>batchBroadcast\<close> is called once, with all
  25 items.
\<close>

theorem fan_out_25_elements_one_batch:
  "maxBatchSize (socket demo_rpc) = Some 10 \<and>
   fst (mutation_fn demo_rpc ''deleteAllPosts'' deleteAllPosts JUndefined
          (demo_request ''/rpc/mutation'' ''deleteAllPosts'' JUndefined) True) = Inr (JArr post_ids) \<and>
   length post_ids = 25 \<and>
   batch_sizes (snd (mutation_fn demo_rpc ''deleteAllPosts'' deleteAllPosts JUndefined
          (demo_request ''/rpc/mutation'' ''deleteAllPosts'' JUndefined) True)) = [25]"
proof -
  let ?req = "demo_request ''/rpc/mutation'' ''deleteAllPosts'' JUndefined"
  let ?g = "\<lambda>i. BatchSuccess (getRpcChannelName ''getPost'' (JObj [(''id'', JNum (int i))]))
                (JObj [(''post'', JObj [(''id'', JNum (int i))])])"
  let ?t = "\<lambda>i. [QueryCalled ''getPost'' (JObj [(''id'', JNum (int i))]),
       Broadcast (getRpcChannelName ''getPost'' (JObj [(''id'', JNum (int i))])) ''update'' (JObj [(''post'', JObj [(''id'', JNum (int i))])])]"
  have elems: "map (\<lambda>i. batch_element demo_rpc ''getPost'' ?req (JObj [(''id'', JNum (int i))])) [0..<25] =
      map (\<lambda>i. (Inr (?g i), ?t i)) [0..<25]"
    by (simp add: batch_element_getPost del: upt.simps)
  have all: "Promise_all (map (\<lambda>i. batch_element demo_rpc ''getPost'' ?req (JObj [(''id'', JNum (int i))])) [0..<25]) =
      (Inr (map ?g [0..<25]), concat (map ?t [0..<25]))"
    unfolding elems by (rule Promise_all_resolved)
  have items: "successful_items (map ?g [0..<25]) \<noteq> []" "length (successful_items (map ?g [0..<25])) = 25"
    by (simp_all add: successful_items_all del: upt.simps)
  have suc: "list_all is_success (map ?g [0..<25])"
    by (simp add: list_all_iff is_success_def)
  have target: "batch_sizes (snd (invalidate_target demo_rpc JUndefined (JArr post_ids) ?req
      (''getPost'', Some (\<lambda>mutationParams mutationResults.
                  case mutationResults of
                    JArr ids \<Rightarrow> Inr (JArr (map (\<lambda>i. JObj [(''id'', i)]) ids))
                  | _ \<Rightarrow> Inr JUndefined)))) = [25]"
    using items suc
    by (simp add: invalidate_target_def post_ids_def comp_def all toBroadcast_single_batch promise_defs
        batch_sizes_append batch_sizes_concat_no_batch demo_batchBroadcast del: upt.simps)
  have valid: "validateParams demo_rpc mutation_type ''deleteAllPosts'' JUndefined = Inr JUndefined"
    by (simp add: validateParams_def lookup_property_def demo_defs)
  have "maxBatchSize (socket demo_rpc) = Some 10"
    by (simp add: demo_defs)
  moreover have "length post_ids = 25" by (simp add: post_ids_def)
  moreover have "fst (mutation_fn demo_rpc ''deleteAllPosts'' deleteAllPosts JUndefined ?req True) = Inr (JArr post_ids)"
    by (simp add: mutation_fn_def valid promise_defs deleteAllPosts_def split_beta)
  moreover have "batch_sizes (snd (mutation_fn demo_rpc ''deleteAllPosts'' deleteAllPosts JUndefined ?req True)) = [25]"
    using target
    by (simp add: mutation_fn_def valid promise_defs fan_out_def deleteAllPosts_def split_beta)
  ultimately show ?thesis by simp
qed

text \<open>
  C5. When the parameters of a mutation are valid, its authorization predicate (if it is
  consulted) does not raise and its handler returns \<open>result\<close>, the mutation returns
  \<open>result\<close>, whatever the invalidation of the target queries does; the events of that
  invalidation follow the call of the handler.
\<close>

theorem mutation_returns_handler_result:
  assumes "validateParams rpc mutation_type name params = Inr parsed"
    and "does_not_raise (if withAuth then m_authorization md else None) parsed req"
    and "m_mutation md parsed req = Inr result"
  shows "fst (mutation_fn rpc name md params req withAuth) = Inr result \<and>
         (\<exists>before. snd (mutation_fn rpc name md params req withAuth) =
            before @ MutationCalled name parsed # snd (fan_out rpc md parsed result req))"
proof (cases "if withAuth then m_authorization md else None")
  case None
  with assms(1,3) show ?thesis
    by (simp add: mutation_fn_def promise_defs split_beta)
next
  case (Some authorization)
  with assms(2) obtain allowed where "authorization parsed req = Inr allowed"
    by (auto simp: does_not_raise_def split: sum.splits)
  with Some assms(1,3) show ?thesis
    by (simp add: mutation_fn_def promise_defs split_beta)
qed

theorem mutation_returns_handler_result_witness:
  "does_not_raise (m_authorization createPost) (JObj [(''title'', JStr ''A'')])
     (demo_request ''/rpc/mutation'' ''createPost'' (JObj [(''title'', JStr ''A'')])) \<and>
   validateParams offline_rpc mutation_type ''createPost'' (JObj [(''title'', JStr ''A'')]) = Inr (JObj [(''title'', JStr ''A'')]) \<and>
   m_mutation createPost (JObj [(''title'', JStr ''A'')]) (demo_request ''/rpc/mutation'' ''createPost'' (JObj [(''title'', JStr ''A'')]))
     = Inr (JObj [(''id'', JNum 1)]) \<and>
   fst (fan_out offline_rpc createPost (JObj [(''title'', JStr ''A'')]) (JObj [(''id'', JNum 1)])
          (demo_request ''/rpc/mutation'' ''createPost'' (JObj [(''title'', JStr ''A'')])))
     = Inl (HTTPException 500 ''Failed to broadcast update'') \<and>
   fst (mutation_fn offline_rpc ''createPost'' createPost (JObj [(''title'', JStr ''A'')])
          (demo_request ''/rpc/mutation'' ''createPost'' (JObj [(''title'', JStr ''A'')])) True)
     = Inr (JObj [(''id'', JNum 1)])"
proof -
  let ?p = "JObj [(''title'', JStr ''A'')]"
  let ?req = "demo_request ''/rpc/mutation'' ''createPost'' ?p"
  have v: "validateParams offline_rpc mutation_type ''createPost'' ?p = Inr ?p"
    by (simp add: validateParams_def lookup_property_def demo_defs)
  have a: "does_not_raise (if True then m_authorization createPost else None) ?p ?req"
    by (simp add: does_not_raise_def createPost_def)
  have m: "m_mutation createPost ?p ?req = Inr (JObj [(''id'', JNum 1)])"
    by (simp add: createPost_def)
  have f: "fst (fan_out offline_rpc createPost ?p (JObj [(''id'', JNum 1)]) ?req)
     = Inl (HTTPException 500 ''Failed to broadcast update'')"
    by (simp add: fan_out_def invalidate_target_def invalidate_def validateParams_def lookup_property_def promise_defs
        demo_defs)
  from mutation_returns_handler_result [OF v a m] v a m f show ?thesis by simp
qed

text \<open>
  C10, as the code has it. A query request that is answered carries in its response the
  channel computed from the raw params of the request, whether the name is a registered
  query or a function inherited from \<open>Object.prototype\<close>. For a registered query,
  \<open>invalidate\<close> and \<open>batchInvalidate\<close> called with the same params broadcast on the channel
  computed from the parsed params. The two channels are equal exactly when the digests of
  the canonical forms of the raw and of the parsed params are, and so whenever the two
  canonical forms are equal.
\<close>

theorem query_channel_raw_vs_parsed:
  assumes "endsWith (pathname c) ''/rpc/query''"
    and "fst (handleRequest rpc c) = Inr (Some resp)"
  shows "(\<exists>result.
            resp = JsonResponse (JObj [(''data'', result),
                                       (''channel'', JStr (getRpcChannelName (body_key c) (body_params c))),
                                       (''error'', JNull)]) 200) \<and>
         (\<forall>qd. map_of (queries (config rpc)) (body_key c) = Some qd \<longrightarrow>
            (\<exists>parsed result.
               q_safeParse qd (body_params c) = ParseSuccess parsed \<and>
               q_query qd parsed c = Inr result \<and>
               resp = JsonResponse (JObj [(''data'', result),
                                          (''channel'', JStr (getRpcChannelName (body_key c) (body_params c))),
                                          (''error'', JNull)]) 200 \<and>
               snd (invalidate rpc (body_key c) qd (body_params c) c) =
                 [QueryCalled (body_key c) parsed,
                  Broadcast (getRpcChannelName (body_key c) parsed) ''update'' result] \<and>
               snd (batchInvalidate rpc (body_key c) qd (body_params c) c) =
                 [QueryCalled (body_key c) parsed,
                  Broadcast (getRpcChannelName (body_key c) parsed) ''update'' result] \<and>
               (stableStringify (nullish_default (body_params c)) = stableStringify (nullish_default parsed) \<longrightarrow>
                  getRpcChannelName (body_key c) (body_params c) = getRpcChannelName (body_key c) parsed) \<and>
               (getRpcChannelName (body_key c) (body_params c) = getRpcChannelName (body_key c) parsed \<longleftrightarrow>
                  sha256 (stableStringify (nullish_default (body_params c))) =
                  sha256 (stableStringify (nullish_default parsed)))))"
proof (intro conjI allI impI)
  let ?key = "body_key c" and ?raw = "body_params c"
  let ?found = "lookup_property (queries (config rpc)) ?key"
  let ?call = "case ?found of
                 Registered qdef \<Rightarrow> query_fn rpc ?key qdef ?raw c True
               | _ \<Rightarrow> (Object_prototype_call ?key ?raw, [])"
  from assms obtain result where call: "fst ?call = Inr result"
    and resp: "resp = JsonResponse (JObj [(''data'', result),
                                       (''channel'', JStr (getRpcChannelName ?key ?raw)),
                                       (''error'', JNull)]) 200"
    by (cases ?found; cases "fst ?call")
       (auto simp: handleRequest_def promise_defs split_beta split: sum.splits)
  from resp show "\<exists>result.
            resp = JsonResponse (JObj [(''data'', result),
                                       (''channel'', JStr (getRpcChannelName ?key ?raw)),
                                       (''error'', JNull)]) 200"
    by blast
  fix qd assume qd: "map_of (queries (config rpc)) ?key = Some qd"
  then have "?found = Registered qd" by (simp add: lookup_property_def)
  with call have q: "fst (query_fn rpc ?key qd ?raw c True) = Inr result" by simp
  from q qd obtain parsed where p: "q_safeParse qd ?raw = ParseSuccess parsed"
    by (auto simp: query_fn_def validateParams_def lookup_property_def promise_defs
        split: safe_parse_result.splits)
  with qd have v: "validateParams rpc query_type ?key ?raw = Inr parsed"
    by (simp add: validateParams_def lookup_property_def)
  from q v have h: "q_query qd parsed c = Inr result"
    by (auto simp: query_fn_def promise_defs split_beta split: sum.splits option.splits if_splits)
  have i: "snd (invalidate rpc ?key qd ?raw c) =
        [QueryCalled ?key parsed, Broadcast (getRpcChannelName ?key parsed) ''update'' result]"
    using v h by (simp add: invalidate_def promise_defs split_beta split: sum.splits)
  have b: "snd (batchInvalidate rpc ?key qd ?raw c) =
        [QueryCalled ?key parsed, Broadcast (getRpcChannelName ?key parsed) ''update'' result]"
    using v h by (simp add: batchInvalidate_def promise_defs split_beta split: sum.splits)
  have e: "stableStringify (nullish_default ?raw) = stableStringify (nullish_default parsed) \<longrightarrow>
         getRpcChannelName ?key ?raw = getRpcChannelName ?key parsed"
    by (simp add: getRpcChannelName_def)
  have d: "getRpcChannelName ?key ?raw = getRpcChannelName ?key parsed \<longleftrightarrow>
         sha256 (stableStringify (nullish_default ?raw)) = sha256 (stableStringify (nullish_default parsed))"
    by (simp add: getRpcChannelName_def)
  from p h resp i b e d show "\<exists>parsed result.
               q_safeParse qd ?raw = ParseSuccess parsed \<and>
               q_query qd parsed c = Inr result \<and>
               resp = JsonResponse (JObj [(''data'', result),
                                          (''channel'', JStr (getRpcChannelName ?key ?raw)),
                                          (''error'', JNull)]) 200 \<and>
               snd (invalidate rpc ?key qd ?raw c) =
                 [QueryCalled ?key parsed, Broadcast (getRpcChannelName ?key parsed) ''update'' result] \<and>
               snd (batchInvalidate rpc ?key qd ?raw c) =
                 [QueryCalled ?key parsed, Broadcast (getRpcChannelName ?key parsed) ''update'' result] \<and>
               (stableStringify (nullish_default ?raw) = stableStringify (nullish_default parsed) \<longrightarrow>
                  getRpcChannelName ?key ?raw = getRpcChannelName ?key parsed) \<and>
               (getRpcChannelName ?key ?raw = getRpcChannelName ?key parsed \<longleftrightarrow>
                  sha256 (stableStringify (nullish_default ?raw)) =
                  sha256 (stableStringify (nullish_default parsed)))"
    by blast
qed

text \<open>
  A validator that strips unknown keys: the client is told to subscribe to one channel and
  the update is broadcast on another. The last conjunct is the request for the inherited
  name \<open>toString\<close>.
\<close>

lemma getUser_raw_channel:
  "getRpcChannelName ''getUser'' (JObj [(''id'', JNum 7), (''extra'', JNum 1)]) =
   ''query_getUser_73858f4fd4df4edceeb5cc9049be2537af33af4d2ce74e6ead6bb5b10a50b0f8''"
  by code_simp

lemma getUser_parsed_channel:
  "getRpcChannelName ''getUser'' (JObj [(''id'', JNum 7)]) =
   ''query_getUser_a3c90e3b7448d23d9eacebd0ebf15cae100e21f9b2c688f3f9d238edcd26d67f''"
  by code_simp


theorem query_channel_raw_vs_parsed_witness:
  "endsWith (pathname (demo_request ''/api/rpc/query'' ''getUser'' (JObj [(''id'', JNum 7), (''extra'', JNum 1)])))
     ''/rpc/query'' \<and>
   fst (handleRequest demo_rpc (demo_request ''/api/rpc/query'' ''getUser'' (JObj [(''id'', JNum 7), (''extra'', JNum 1)]))) =
     Inr (Some (JsonResponse
       (JObj [(''data'', JObj [(''user'', JObj [(''id'', JNum 7)])]),
              (''channel'', JStr ''query_getUser_73858f4fd4df4edceeb5cc9049be2537af33af4d2ce74e6ead6bb5b10a50b0f8''),
              (''error'', JNull)]) 200)) \<and>
   q_safeParse getUser (JObj [(''id'', JNum 7), (''extra'', JNum 1)]) = ParseSuccess (JObj [(''id'', JNum 7)]) \<and>
   snd (invalidate demo_rpc ''getUser'' getUser (JObj [(''id'', JNum 7), (''extra'', JNum 1)])
          (demo_request ''/api/rpc/query'' ''getUser'' (JObj [(''id'', JNum 7), (''extra'', JNum 1)]))) =
     [QueryCalled ''getUser'' (JObj [(''id'', JNum 7)]),
      Broadcast ''query_getUser_a3c90e3b7448d23d9eacebd0ebf15cae100e21f9b2c688f3f9d238edcd26d67f'' ''update''
        (JObj [(''user'', JObj [(''id'', JNum 7)])])] \<and>
   getRpcChannelName ''getUser'' (JObj [(''id'', JNum 7), (''extra'', JNum 1)]) \<noteq>
   getRpcChannelName ''getUser'' (JObj [(''id'', JNum 7)]) \<and>
   fst (handleRequest demo_rpc (demo_request ''/rpc/query'' ''toString'' JNull)) =
     Inr (Some (JsonResponse
       (JObj [(''data'', JStr ''[object Undefined]''),
              (''channel'', JStr (getRpcChannelName ''toString'' JNull)),
              (''error'', JNull)]) 200))"
proof -
  let ?raw = "JObj [(''id'', JNum 7), (''extra'', JNum 1)]"
  let ?parsed = "JObj [(''id'', JNum 7)]"
  let ?c = "demo_request ''/api/rpc/query'' ''getUser'' ?raw"
  let ?resp = "JsonResponse
       (JObj [(''data'', JObj [(''user'', ?parsed)]),
              (''channel'', JStr (getRpcChannelName ''getUser'' ?raw)),
              (''error'', JNull)]) 200"
  have q: "map_of (queries (config demo_rpc)) (body_key ?c) = Some getUser"
    by (simp add: demo_defs)
  have e: "endsWith (pathname ?c) ''/rpc/query''"
    by (simp add: endsWith_def demo_request_def)
  have k: "body_key ?c = ''getUser''" and r: "body_params ?c = ?raw"
    by (simp_all add: demo_request_def)
  have p: "q_safeParse getUser ?raw = ParseSuccess ?parsed"
    by (simp add: getUser_def)
  have h: "fst (handleRequest demo_rpc ?c) = Inr (Some ?resp)"
    by (simp add: handleRequest_def query_fn_def validateParams_def lookup_property_def promise_defs
        endsWith_def demo_defs)
  from query_channel_raw_vs_parsed [OF e h] q
  obtain parsed result where "q_safeParse getUser (body_params ?c) = ParseSuccess parsed"
    and "?resp = JsonResponse (JObj [(''data'', result),
                   (''channel'', JStr (getRpcChannelName (body_key ?c) (body_params ?c))),
                   (''error'', JNull)]) 200"
    and "snd (invalidate demo_rpc (body_key ?c) getUser (body_params ?c) ?c) =
                 [QueryCalled (body_key ?c) parsed,
                  Broadcast (getRpcChannelName (body_key ?c) parsed) ''update'' result]"
    by blast
  with p have i: "snd (invalidate demo_rpc ''getUser'' getUser ?raw ?c) =
      [QueryCalled ''getUser'' ?parsed,
       Broadcast (getRpcChannelName ''getUser'' ?parsed) ''update'' (JObj [(''user'', ?parsed)])]"
    by (simp add: k r)
  have e2: "endsWith (pathname (demo_request ''/rpc/query'' ''toString'' JNull)) ''/rpc/query''"
    by (simp add: endsWith_def demo_request_def)
  have t: "fst (handleRequest demo_rpc (demo_request ''/rpc/query'' ''toString'' JNull)) =
     Inr (Some (JsonResponse
       (JObj [(''data'', JStr ''[object Undefined]''),
              (''channel'', JStr (getRpcChannelName ''toString'' JNull)),
              (''error'', JNull)]) 200))"
    by (simp add: handleRequest_def lookup_property_def Object_prototype_names_def
        Object_prototype_call_def promise_defs endsWith_def demo_defs)
  from e h p i t show ?thesis
    by (simp add: getUser_raw_channel getUser_parsed_channel)
qed

text \<open>
  C10 as stated fails: a validator that turns \<open>null\<close> into \<open>undefined\<close> changes the
  input, and the two channels coincide.
\<close>

theorem channels_coincide_though_parse_changes_input:
  "q_safeParse getPosts JNull = ParseSuccess JUndefined \<and> JUndefined \<noteq> JNull \<and>
   fst (handleRequest demo_rpc (demo_request ''/rpc/query'' ''getPosts'' JNull)) =
     Inr (Some (JsonResponse
       (JObj [(''data'', JArr []),
              (''channel'', JStr (getRpcChannelName ''getPosts'' JNull)),
              (''error'', JNull)]) 200)) \<and>
   snd (invalidate demo_rpc ''getPosts'' getPosts JNull (demo_request ''/rpc/query'' ''getPosts'' JNull)) =
     [QueryCalled ''getPosts'' JUndefined,
      Broadcast (getRpcChannelName ''getPosts'' JUndefined) ''update'' (JArr [])] \<and>
   getRpcChannelName ''getPosts'' JNull = getRpcChannelName ''getPosts'' JUndefined"
  by (simp add: handleRequest_def query_fn_def invalidate_def validateParams_def lookup_property_def
      promise_defs endsWith_def demo_defs getRpcChannelName_def nullish_default_def)

end
